theory Spec2Isabelle
  imports Main "HOL-Library.Word" "HOL-Library.Finite_Map" "HOL-Library.List_Lexorder"
    "HOL-Library.Char_ord"
begin

section \<open>pubsubmsgrestforwarder: the message delivery loop\<close>

text \<open>
  The program receives messages from a Pub/Sub subscription, turns each into the JSON
  envelope of a push delivery, POSTs it to a URL and acknowledges the message according to
  the outcome. The functions of \<^verbatim>\<open>main.go\<close> are embedded here together with the library
  operations they call: base64 encoding, timestamp formatting, JSON encoding, the HTTP
  client and the subscription's receive loop.
\<close>

subsection \<open>\<^verbatim>\<open>base64.StdEncoding\<close>\<close>

text \<open>
  The standard alphabet of RFC 4648 with \<^verbatim>\<open>=\<close> padding. \<^verbatim>\<open>EncodeToString\<close> packs three bytes
  into a 24-bit value and emits its four 6-bit digits; a tail of one or two bytes is padded.
  \<^verbatim>\<open>DecodeString\<close> is the inverse direction, failing on anything that is not padded base64.
\<close>

type_synonym byte = "8 word"

definition encodeStd :: string where
  "encodeStd = ''ABCDEFGHIJKLMNOPQRSTUVWXYZabcdefghijklmnopqrstuvwxyz0123456789+/''"

definition padChar :: char where
  "padChar = CHR ''=''"

definition encode :: "nat \<Rightarrow> char" where
  "encode n = encodeStd ! n"

fun EncodeToString :: "byte list \<Rightarrow> string" where
  "EncodeToString (a # b # c # rest) =
     (let val = unat a * 65536 + unat b * 256 + unat c in
        [encode (val div 262144 mod 64), encode (val div 4096 mod 64),
         encode (val div 64 mod 64), encode (val mod 64)]) @ EncodeToString rest"
| "EncodeToString [a, b] =
     (let val = unat a * 65536 + unat b * 256 in
        [encode (val div 262144 mod 64), encode (val div 4096 mod 64),
         encode (val div 64 mod 64), padChar])"
| "EncodeToString [a] =
     (let val = unat a * 65536 in
        [encode (val div 262144 mod 64), encode (val div 4096 mod 64), padChar, padChar])"
| "EncodeToString [] = []"

fun index_of :: "'a \<Rightarrow> 'a list \<Rightarrow> nat option" where
  "index_of x [] = None"
| "index_of x (y # ys) = (if x = y then Some 0 else map_option Suc (index_of x ys))"

definition decodeMap :: "char \<Rightarrow> nat option" where
  "decodeMap c = index_of c encodeStd"

fun decodeQuantum :: "nat \<Rightarrow> char list \<Rightarrow> nat option" where
  "decodeQuantum v [] = Some v"
| "decodeQuantum v (c # cs) =
     (case decodeMap c of None \<Rightarrow> None | Some n \<Rightarrow> decodeQuantum (v * 64 + n) cs)"

definition bytes3 :: "nat \<Rightarrow> byte list" where
  "bytes3 v = [of_nat (v div 65536), of_nat (v div 256 mod 256), of_nat (v mod 256)]"

definition bytes2 :: "nat \<Rightarrow> byte list" where
  "bytes2 v = [of_nat (v div 1024), of_nat (v div 4 mod 256)]"

definition bytes1 :: "nat \<Rightarrow> byte list" where
  "bytes1 v = [of_nat (v div 16)]"

fun DecodeString :: "string \<Rightarrow> byte list option" where
  "DecodeString [] = Some []"
| "DecodeString [c0, c1, c2, c3] =
     (if c2 = padChar \<and> c3 = padChar then map_option bytes1 (decodeQuantum 0 [c0, c1])
      else if c3 = padChar then map_option bytes2 (decodeQuantum 0 [c0, c1, c2])
      else map_option bytes3 (decodeQuantum 0 [c0, c1, c2, c3]))"
| "DecodeString (c0 # c1 # c2 # c3 # rest) =
     (case decodeQuantum 0 [c0, c1, c2, c3] of
        None \<Rightarrow> None
      | Some v \<Rightarrow> map_option ((@) (bytes3 v)) (DecodeString rest))"
| "DecodeString _ = None"

subsection \<open>\<^verbatim>\<open>time.Time\<close> and \<^verbatim>\<open>Format(time.RFC3339)\<close>\<close>

text \<open>
  A \<^verbatim>\<open>time.Time\<close> is an instant with nanosecond resolution together with a zone offset:
  \<open>unixSec\<close> counts the whole seconds since 1970-01-01T00:00:00Z, \<open>nsec\<close> the nanoseconds
  within that second and \<open>zoneOffset\<close> the seconds east of UTC.
  The layout \<^verbatim>\<open>time.RFC3339\<close> is \<^verbatim>\<open>2006-01-02T15:04:05Z07:00\<close>: date, time of day in
  whole seconds, and the zone, printed as \<^verbatim>\<open>Z\<close> when the offset is zero and as hours and
  minutes otherwise. \<open>appendInt\<close> writes a number in decimal, padded with zeros to a width
  and with its sign in front. \<open>absDate\<close> finds the year and the day within it by cutting off
  cycles of 400, 100 and 4 years and then single years, counting days from 0001-01-01;
  \<open>Date\<close> finds month and day from the table of days before each month, with the
  adjustment for the leap day. \<open>quo\<close> is Go's integer division, which truncates.
\<close>

record Time =
  unixSec :: int
  nsec :: nat
  zoneOffset :: int

definition digits :: string where
  "digits = ''0123456789''"

fun itoa :: "nat \<Rightarrow> string" where
  "itoa n = (if n < 10 then [digits ! n] else itoa (n div 10) @ [digits ! (n mod 10)])"

declare itoa.simps [simp del]

definition appendInt :: "int \<Rightarrow> nat \<Rightarrow> string" where
  "appendInt x width =
     (let ds = itoa (nat \<bar>x\<bar>) in
        (if x < 0 then ''-'' else []) @ replicate (width - length ds) (CHR ''0'') @ ds)"

definition isLeap :: "int \<Rightarrow> bool" where
  "isLeap year = (year mod 4 = 0 \<and> (year mod 100 \<noteq> 0 \<or> year mod 400 = 0))"

definition absDate :: "int \<Rightarrow> int \<times> int" where
  "absDate days =
     (let d = days + 719162;
          n400 = d div 146097;
          d1 = d mod 146097;
          n = d1 div 36524;
          n100 = n - n div 4;
          d2 = d1 - 36524 * n100;
          n4 = d2 div 1461;
          d3 = d2 mod 1461;
          n' = d3 div 365;
          n1 = n' - n' div 4;
          yday = d3 - 365 * n1
      in (400 * n400 + 100 * n100 + 4 * n4 + n1 + 1, yday))"

definition daysBefore :: "int list" where
  "daysBefore = [0, 31, 59, 90, 120, 151, 181, 212, 243, 273, 304, 334, 365]"

definition Date :: "int \<Rightarrow> int \<times> int \<times> int" where
  "Date days =
     (let (year, yday) = absDate days in
      if isLeap year \<and> yday = 59 then (year, 2, 29)
      else
        let day = (if isLeap year \<and> yday > 59 then yday - 1 else yday);
            month = day div 31;
            end = daysBefore ! nat (month + 1)
        in if day \<ge> end then (year, month + 2, day - end + 1)
           else (year, month + 1, day - daysBefore ! nat month + 1))"

definition quo :: "int \<Rightarrow> int \<Rightarrow> int" where
  "quo a b = (if (a < 0) = (b < 0) then \<bar>a\<bar> div \<bar>b\<bar> else - (\<bar>a\<bar> div \<bar>b\<bar>))"

definition formatZone :: "int \<Rightarrow> string" where
  "formatZone offset =
     (if offset = 0 then ''Z''
      else
        let zone = quo offset 60 in
        (if zone < 0 then ''-'' else ''+'') @
        appendInt (\<bar>zone\<bar> div 60) 2 @ '':'' @ appendInt (\<bar>zone\<bar> mod 60) 2)"

definition Format_RFC3339 :: "Time \<Rightarrow> string" where
  "Format_RFC3339 t =
     (let abs = unixSec t + zoneOffset t;
          (year, month, day) = Date (abs div 86400);
          s = abs mod 86400
      in appendInt year 4 @ ''-'' @ appendInt month 2 @ ''-'' @ appendInt day 2 @ ''T'' @
         appendInt (s div 3600) 2 @ '':'' @ appendInt (s mod 3600 div 60) 2 @ '':'' @
         appendInt (s mod 60) 2 @ formatZone (zoneOffset t))"

subsection \<open>The data model of \<^verbatim>\<open>main.go\<close>\<close>

record Config =
  Project :: string
  Subscription :: string
  URL :: string

text \<open>
  \<^verbatim>\<open>pubsub.Message\<close>, as far as the program reads it. A Go map may be \<^verbatim>\<open>nil\<close>, which is
  \<open>None\<close> here; a map that exists is finite and has unique keys.
\<close>

record pubsub_Message =
  ID :: string
  Data :: "byte list"
  Attributes :: "(string, string) fmap option"
  PublishTime :: Time
  OrderingKey :: string

record PubSubMessage_Message =
  Attributes :: "(string, string) fmap option"
  Data :: string
  MessageID :: string
  OrderingKey :: string
  PublishTime :: string

record PubSubMessage =
  Message :: PubSubMessage_Message
  Subscription :: string

definition transformMessage :: "pubsub_Message \<Rightarrow> Config \<Rightarrow> PubSubMessage" where
  "transformMessage msg cfg =
     \<lparr> Message =
         \<lparr> Attributes = pubsub_Message.Attributes msg,
           Data = EncodeToString (pubsub_Message.Data msg),
           MessageID = ID msg,
           OrderingKey = pubsub_Message.OrderingKey msg,
           PublishTime = Format_RFC3339 (pubsub_Message.PublishTime msg) \<rparr>,
       Subscription = ''projects/'' @ Project cfg @ ''/subscriptions/'' @ Config.Subscription cfg \<rparr>"

subsection \<open>\<^verbatim>\<open>json.Marshal\<close> of the envelope\<close>

text \<open>
  The body of the request is described by the JSON document it denotes. A struct is encoded
  as an object with one member per field, named by the field's tag; a field tagged
  \<^verbatim>\<open>omitempty\<close> is left out when it is the empty string; a \<^verbatim>\<open>nil\<close> map is encoded as
  \<^verbatim>\<open>null\<close> and any other map as an object. Neither strings nor maps of strings can make
  \<^verbatim>\<open>json.Marshal\<close> fail. The escapes the encoder writes inside a string do not change
  what the string denotes; its coercion to valid UTF-8 does, and is modelled below.
\<close>

datatype json = JNull | JString string | JObject "(string, json) fmap"

text \<open>
  Errors: the sentinel \<^verbatim>\<open>context.Canceled\<close>, an error made by a library with its message,
  and the two forms of \<^verbatim>\<open>fmt.Errorf\<close> the program uses, with \<^verbatim>\<open>%s\<close> and with \<^verbatim>\<open>%w\<close>; the
  latter keeps the error it wraps. \<open>Error\<close> is the message of an error.
\<close>

datatype error =
    context_Canceled
  | external_error string
  | errorString string
  | wrapError string error

fun Error :: "error \<Rightarrow> string" where
  "Error context_Canceled = ''context canceled''"
| "Error (external_error s) = s"
| "Error (errorString s) = s"
| "Error (wrapError s e) = s"

definition Errorf_w :: "string \<Rightarrow> error \<Rightarrow> error" where
  "Errorf_w prefix err = wrapError (prefix @ Error err) err"

definition Errorf_s :: "string \<Rightarrow> string \<Rightarrow> error" where
  "Errorf_s prefix str = errorString (prefix @ str)"

text \<open>
  \<^verbatim>\<open>json.Marshal\<close> writes strings coerced to valid UTF-8: every byte that does not begin a
  well-formed UTF-8 sequence is replaced by the replacement character U+FFFD. \<open>runeSize\<close> is
  the length of the well-formed sequence at the front of a list of bytes, 0 when there is
  none; \<open>ValidString\<close> is \<^verbatim>\<open>utf8.ValidString\<close>.
\<close>

definition RuneError :: string where
  "RuneError = [CHR 0xEF, CHR 0xBF, CHR 0xBD]"

definition continuation :: "nat \<Rightarrow> bool" where
  "continuation b = (128 \<le> b \<and> b \<le> 191)"

fun runeSize :: "nat list \<Rightarrow> nat" where
  "runeSize [] = 0"
| "runeSize (b0 # bs) =
     (if b0 < 128 then 1
      else if 194 \<le> b0 \<and> b0 \<le> 223 then
        (case bs of
           b1 # _ \<Rightarrow> if continuation b1 then 2 else 0
         | _ \<Rightarrow> 0)
      else if 224 \<le> b0 \<and> b0 \<le> 239 then
        (case bs of
           b1 # b2 # _ \<Rightarrow>
             if (if b0 = 224 then 160 else 128) \<le> b1 \<and> b1 \<le> (if b0 = 237 then 159 else 191) \<and>
                continuation b2
             then 3 else 0
         | _ \<Rightarrow> 0)
      else if 240 \<le> b0 \<and> b0 \<le> 244 then
        (case bs of
           b1 # b2 # b3 # _ \<Rightarrow>
             if (if b0 = 240 then 144 else 128) \<le> b1 \<and> b1 \<le> (if b0 = 244 then 143 else 191) \<and>
                continuation b2 \<and> continuation b3
             then 4 else 0
         | _ \<Rightarrow> 0)
      else 0)"

function coerceUTF8 :: "string \<Rightarrow> string" where
  "coerceUTF8 [] = []"
| "coerceUTF8 (c # cs) =
     (let size = runeSize (map of_char (c # cs)) in
      if size = 0 then RuneError @ coerceUTF8 cs
      else take size (c # cs) @ coerceUTF8 (drop size (c # cs)))"
  by pat_completeness auto
termination
  by (relation "measure length") auto

function ValidString :: "string \<Rightarrow> bool" where
  "ValidString [] = True"
| "ValidString (c # cs) =
     (let size = runeSize (map of_char (c # cs)) in
      if size = 0 then False else ValidString (drop size (c # cs)))"
  by pat_completeness auto
termination
  by (relation "measure length") auto

definition marshal_string :: "string \<Rightarrow> json" where
  "marshal_string s = JString (coerceUTF8 s)"

text \<open>
  The entries of a map are written in the order of their keys. When two keys are coerced to
  the same name, the member written last is the one the document has.
\<close>

definition marshal_map :: "(string, string) fmap option \<Rightarrow> json" where
  "marshal_map a =
     (case a of
        None \<Rightarrow> JNull
      | Some m \<Rightarrow>
          JObject (fold (\<lambda>k obj. case fmlookup m k of
                                   None \<Rightarrow> obj
                                 | Some v \<Rightarrow> fmupd (coerceUTF8 k) (marshal_string v) obj)
                     (sorted_list_of_fset (fmdom m)) fmempty))"

definition marshal_Message :: "PubSubMessage_Message \<Rightarrow> json" where
  "marshal_Message m =
     JObject (fmap_of_list
       ([(''attributes'', marshal_map (PubSubMessage_Message.Attributes m)),
         (''data'', marshal_string (PubSubMessage_Message.Data m)),
         (''messageId'', marshal_string (MessageID m))] @
        (if PubSubMessage_Message.OrderingKey m = [] then []
         else [(''orderingKey'', marshal_string (PubSubMessage_Message.OrderingKey m))]) @
        [(''publishTime'', marshal_string (PubSubMessage_Message.PublishTime m))]))"

definition json_Marshal :: "PubSubMessage \<Rightarrow> error + json" where
  "json_Marshal payload =
     Inr (JObject (fmap_of_list
       [(''message'', marshal_Message (Message payload)),
        (''subscription'', marshal_string (PubSubMessage.Subscription payload))]))"

subsection \<open>The HTTP client\<close>

text \<open>
  The network is outside the program. It is a parameter: \<open>url_Parse\<close> says whether
  \<^verbatim>\<open>http.NewRequest\<close> accepts a URL, and \<open>client_Do\<close> takes a request and the state of the
  world and gives a transport error or a response, with the world's next state. A request
  that exceeds the client's ten-second timeout ends as a transport error.
\<close>

record Request =
  Method :: string
  URL :: string
  Header :: "(string \<times> string) list"
  Body :: json

record Response =
  Status :: string
  StatusCode :: int

record 'w Env =
  url_Parse :: "string \<Rightarrow> error option"
  client_Do :: "Request \<Rightarrow> 'w \<Rightarrow> (error + Response) \<times> 'w"

definition http_NewRequest :: "'w Env \<Rightarrow> string \<Rightarrow> string \<Rightarrow> json \<Rightarrow> error + Request" where
  "http_NewRequest env method url body =
     (case url_Parse env url of
        Some err \<Rightarrow> Inl err
      | None \<Rightarrow> Inr \<lparr> Method = method, URL = url, Header = [], Body = body \<rparr>)"

definition Header_Set :: "(string \<times> string) list \<Rightarrow> string \<Rightarrow> string \<Rightarrow> (string \<times> string) list" where
  "Header_Set h k v = (k, v) # filter (\<lambda>kv. fst kv \<noteq> k) h"

text \<open>The state the program acts on: the world behind the HTTP client, and the log.\<close>

record 'w state =
  world :: 'w
  logs :: "string list"

definition log_Println :: "string \<Rightarrow> 'w state \<Rightarrow> 'w state" where
  "log_Println line s = s \<lparr> logs := logs s @ [line] \<rparr>"

definition sendPOST :: "'w Env \<Rightarrow> string \<Rightarrow> PubSubMessage \<Rightarrow> 'w state \<Rightarrow> error option \<times> 'w state" where
  "sendPOST env url payload s =
     (case json_Marshal payload of
        Inl err \<Rightarrow> (Some (Errorf_w ''failed to marshal JSON payload: '' err), s)
      | Inr jsonData \<Rightarrow>
          (case http_NewRequest env ''POST'' url jsonData of
             Inl err \<Rightarrow> (Some (Errorf_w ''failed to create POST request: '' err), s)
           | Inr req0 \<Rightarrow>
               (let req = req0 \<lparr> Header := Header_Set (Header req0) ''Content-Type'' ''application/json'' \<rparr> in
                case client_Do env req (world s) of
                  (Inl err, w) \<Rightarrow> (Some (Errorf_w ''POST request failed: '' err), s \<lparr> world := w \<rparr>)
                | (Inr resp, w) \<Rightarrow>
                    if 200 \<le> StatusCode resp \<and> StatusCode resp < 300
                    then (None, log_Println ''Message processed successfully.'' (s \<lparr> world := w \<rparr>))
                    else (Some (Errorf_s ''failed to process message. HTTP Status: '' (Status resp)),
                          s \<lparr> world := w \<rparr>))))"

subsection \<open>The consumption loop\<close>

text \<open>
  The callback that \<^verbatim>\<open>consumeMessages\<close> hands to \<^verbatim>\<open>Receive\<close>. Its effect on the message is the
  list of calls it makes on the message's acknowledgement handle, in order.
\<close>

datatype AckCall = Ack | Nack

definition callback :: "'w Env \<Rightarrow> Config \<Rightarrow> pubsub_Message \<Rightarrow> 'w state \<Rightarrow> AckCall list \<times> 'w state" where
  "callback env cfg msg s =
     (let transformed = transformMessage msg cfg in
      case sendPOST env (Config.URL cfg) transformed s of
        (Some err, s') \<Rightarrow>
          ([Nack], log_Println (''Error processing message ID '' @ ID msg @ '': '' @ Error err) s')
      | (None, s') \<Rightarrow> ([Ack], s'))"

text \<open>
  \<^verbatim>\<open>sub.Receive\<close> belongs to the Pub/Sub client. A run of it that returns has handed finitely
  many messages to the callback and then given its result: \<^verbatim>\<open>nil\<close>, \<^verbatim>\<open>context.Canceled\<close> or
  another error. Both are parameters. The callbacks are run one after the other; they share
  nothing but the log and the world behind the HTTP client.
\<close>

record Receive_run =
  delivered :: "pubsub_Message list"
  result :: "error option"

fun Receive :: "(pubsub_Message \<Rightarrow> 'w state \<Rightarrow> AckCall list \<times> 'w state) \<Rightarrow>
    pubsub_Message list \<Rightarrow> 'w state \<Rightarrow> AckCall list list \<times> 'w state" where
  "Receive f [] s = ([], s)"
| "Receive f (msg # msgs) s =
     (case f msg s of (calls, s') \<Rightarrow>
        (case Receive f msgs s' of (rest, s'') \<Rightarrow> (calls # rest, s'')))"

definition consumeMessages :: "'w Env \<Rightarrow> Receive_run \<Rightarrow> Config \<Rightarrow> 'w state \<Rightarrow>
    error option \<times> AckCall list list \<times> 'w state" where
  "consumeMessages env sub cfg s =
     (case Receive (callback env cfg) (delivered sub) s of (calls, s') \<Rightarrow>
        (case result sub of
           None \<Rightarrow> (None, calls, s')
         | Some err \<Rightarrow>
             if err \<noteq> context_Canceled
             then (Some (Errorf_w ''error receiving messages: '' err), calls, s')
             else (None, calls, s')))"

subsection \<open>Reading the results\<close>

text \<open>
  Two notions used to state what the program does: the member of a JSON object under a key,
  and the request that \<^verbatim>\<open>sendPOST\<close> hands to the client for a URL and a body.
\<close>

definition member :: "json \<Rightarrow> string \<Rightarrow> json option" where
  "member j k = (case j of JObject m \<Rightarrow> fmlookup m k | _ \<Rightarrow> None)"

definition post_request :: "string \<Rightarrow> json \<Rightarrow> Request" where
  "post_request url body =
     \<lparr> Method = ''POST'', URL = url, Header = [(''Content-Type'', ''application/json'')], Body = body \<rparr>"

text \<open>
  A reader for RFC 3339 date-times as \<^verbatim>\<open>Format\<close> writes them (upper-case \<^verbatim>\<open>T\<close> and \<^verbatim>\<open>Z\<close>,
  no fraction of a second), with its own calendar: the leap-year rule of RFC 3339,
  Appendix C, the lengths of the months, and the days before a year counted from
  0001-01-01. It gives the second of the date and time read as if in UTC, counted from
  1970-01-01T00:00:00, and the zone offset in seconds; the instant is the first minus the
  second. A year of other than four digits, a date that does not exist and a zone of 24
  hours or more are not RFC 3339 and are refused.
\<close>

definition leap_year :: "int \<Rightarrow> bool" where
  "leap_year y = (y mod 4 = 0 \<and> (y mod 100 \<noteq> 0 \<or> y mod 400 = 0))"

definition days_in_month :: "int \<Rightarrow> int \<Rightarrow> int" where
  "days_in_month y m =
     (if m = 2 then (if leap_year y then 29 else 28)
      else if m = 4 \<or> m = 6 \<or> m = 9 \<or> m = 11 then 30 else 31)"

definition days_before_year :: "int \<Rightarrow> int" where
  "days_before_year y = 365 * (y - 1) + (y - 1) div 4 - (y - 1) div 100 + (y - 1) div 400"

definition days_before_month :: "int \<Rightarrow> int \<Rightarrow> int" where
  "days_before_month y m = sum_list (map (days_in_month y) [1..m - 1])"

definition days_from_civil :: "int \<Rightarrow> int \<Rightarrow> int \<Rightarrow> int" where
  "days_from_civil y m d = days_before_year y + days_before_month y m + (d - 1) - 719162"

definition digitVal :: "char \<Rightarrow> nat option" where
  "digitVal c = index_of c ''0123456789''"

fun parseNat :: "nat \<Rightarrow> string \<Rightarrow> nat option" where
  "parseNat v [] = Some v"
| "parseNat v (c # cs) =
     (case digitVal c of None \<Rightarrow> None | Some n \<Rightarrow> parseNat (v * 10 + n) cs)"

fun parseZone :: "string \<Rightarrow> int option" where
  "parseZone [z] = (if z = CHR ''Z'' then Some 0 else None)"
| "parseZone [sg, h1, h2, c, m1, m2] =
     (if (sg = CHR ''+'' \<or> sg = CHR ''-'') \<and> c = CHR '':'' then
        (case (parseNat 0 [h1, h2], parseNat 0 [m1, m2]) of
           (Some h, Some m) \<Rightarrow>
             if h < 24 \<and> m < 60
             then Some ((if sg = CHR ''-'' then - 1 else 1) * (int h * 3600 + int m * 60))
             else None
         | _ \<Rightarrow> None)
      else None)"
| "parseZone _ = None"

fun Parse_RFC3339 :: "string \<Rightarrow> (int \<times> int) option" where
  "Parse_RFC3339 (y1 # y2 # y3 # y4 # p1 # m1 # m2 # p2 # d1 # d2 # pT # h1 # h2 # p3 # n1 # n2 #
      p4 # s1 # s2 # zone) =
     (if p1 = CHR ''-'' \<and> p2 = CHR ''-'' \<and> pT = CHR ''T'' \<and> p3 = CHR '':'' \<and> p4 = CHR '':'' then
        (case (parseNat 0 [y1, y2, y3, y4], parseNat 0 [m1, m2], parseNat 0 [d1, d2],
               parseNat 0 [h1, h2], parseNat 0 [n1, n2], parseNat 0 [s1, s2], parseZone zone) of
           (Some y, Some m, Some d, Some h, Some n, Some s, Some z) \<Rightarrow>
             if 1 \<le> m \<and> m \<le> 12 \<and> 1 \<le> d \<and> int d \<le> days_in_month (int y) (int m) \<and>
                h < 24 \<and> n < 60 \<and> s < 60
             then Some (days_from_civil (int y) (int m) (int d) * 86400 +
                        int h * 3600 + int n * 60 + int s, z)
             else None
         | _ \<Rightarrow> None)
      else None)"
| "Parse_RFC3339 _ = None"

text \<open>
  A run to try the statements on: the message and configuration of the specification's
  end-to-end example, delivered three times to an endpoint that records each request and
  answers the second one with status 500 and every other one with 200.
\<close>

definition example_msg :: pubsub_Message where
  "example_msg =
     \<lparr> ID = ''m1'', pubsub_Message.Data = [104, 101, 108, 108, 111],
       pubsub_Message.Attributes = Some (fmap_of_list [(''k'', ''v'')]),
       pubsub_Message.PublishTime = \<lparr> unixSec = 1704067200, nsec = 0, zoneOffset = 0 \<rparr>,
       pubsub_Message.OrderingKey = [] \<rparr>"

definition example_cfg :: Config where
  "example_cfg = \<lparr> Project = ''p'', Config.Subscription = ''s'', Config.URL = ''http://x/y'' \<rparr>"

definition example_respond :: "nat \<Rightarrow> error + Response" where
  "example_respond n =
     (if n = 1 then Inr \<lparr> Status = ''500 Internal Server Error'', StatusCode = 500 \<rparr>
      else Inr \<lparr> Status = ''200 OK'', StatusCode = 200 \<rparr>)"

definition example_env :: "Request list Env" where
  "example_env =
     \<lparr> url_Parse = (\<lambda>url. None),
       client_Do = (\<lambda>req w. (example_respond (length w), w @ [req])) \<rparr>"

definition example_run :: Receive_run where
  "example_run = \<lparr> delivered = [example_msg, example_msg, example_msg], result = Some context_Canceled \<rparr>"

definition example_state :: "Request list state" where
  "example_state = \<lparr> world = [], logs = [] \<rparr>"

definition example_body :: json where
  "example_body =
     JObject (fmap_of_list
       [(''message'', JObject (fmap_of_list
           [(''attributes'', JObject (fmap_of_list [(''k'', JString ''v'')])),
            (''data'', JString ''aGVsbG8=''),
            (''messageId'', JString ''m1''),
            (''publishTime'', JString ''2024-01-01T00:00:00Z'')])),
        (''subscription'', JString ''projects/p/subscriptions/s'')])"

section \<open>Properties\<close>

subsection \<open>Base64\<close>

lemma distinct_encodeStd: "distinct encodeStd"
  by (simp add: encodeStd_def)

lemma length_encodeStd: "length encodeStd = 64"
  by (simp add: encodeStd_def)

lemma pad_notin: "padChar \<notin> set encodeStd"
  by (simp add: encodeStd_def padChar_def)

lemma index_of_nth: "distinct xs \<Longrightarrow> n < length xs \<Longrightarrow> index_of (xs ! n) xs = Some n"
proof (induction xs arbitrary: n)
  case Nil
  then show ?case by simp
next
  case (Cons x xs)
  show ?case
  proof (cases n)
    case 0
    then show ?thesis by simp
  next
    case (Suc k)
    with Cons.prems have "k < length xs" "distinct xs" "xs ! k \<noteq> x"
      by auto
    with Cons.IH [of k] Suc show ?thesis by simp
  qed
qed

lemma decodeMap_encode: "n < 64 \<Longrightarrow> decodeMap (encode n) = Some n"
  by (simp add: decodeMap_def encode_def index_of_nth distinct_encodeStd length_encodeStd)

lemma encode_not_pad: "n < 64 \<Longrightarrow> encode n \<noteq> padChar"
proof
  assume n: "n < 64" and e: "encode n = padChar"
  from n have "encodeStd ! n \<in> set encodeStd"
    by (simp add: length_encodeStd)
  with e pad_notin show False
    by (simp add: encode_def)
qed

lemma decodeQuantum2:
  "n0 < 64 \<Longrightarrow> n1 < 64 \<Longrightarrow> decodeQuantum 0 [encode n0, encode n1] = Some (n0 * 64 + n1)"
  by (simp add: decodeMap_encode)

lemma decodeQuantum3:
  "n0 < 64 \<Longrightarrow> n1 < 64 \<Longrightarrow> n2 < 64 \<Longrightarrow>
   decodeQuantum 0 [encode n0, encode n1, encode n2] = Some ((n0 * 64 + n1) * 64 + n2)"
  by (simp add: decodeMap_encode)

lemma decodeQuantum4:
  "n0 < 64 \<Longrightarrow> n1 < 64 \<Longrightarrow> n2 < 64 \<Longrightarrow> n3 < 64 \<Longrightarrow>
   decodeQuantum 0 [encode n0, encode n1, encode n2, encode n3] = Some (((n0 * 64 + n1) * 64 + n2) * 64 + n3)"
  by (simp add: decodeMap_encode)

lemma sextets2:
  fixes u :: nat
  assumes "u < 4096"
  shows "u div 64 mod 64 * 64 + u mod 64 = u"
proof -
  from assms have "u div 64 < 64" by simp
  then show ?thesis by simp
qed

lemma sextets3:
  fixes w :: nat
  assumes "w < 262144"
  shows "(w div 4096 mod 64 * 64 + w div 64 mod 64) * 64 + w mod 64 = w"
proof -
  have a: "w div 4096 = w div 64 div 64"
    by (simp add: div_mult2_eq [symmetric])
  from assms have "w div 4096 < 64" by simp
  then have b: "w div 4096 mod 64 = w div 64 div 64" using a by simp
  show ?thesis unfolding b by simp
qed

lemma sextets4:
  fixes v :: nat
  assumes "v < 16777216"
  shows "((v div 262144 mod 64 * 64 + v div 4096 mod 64) * 64 + v div 64 mod 64) * 64 + v mod 64 = v"
proof -
  have a: "v div 4096 = v div 64 div 64" "v div 262144 = v div 64 div 64 div 64"
    by (simp_all add: div_mult2_eq [symmetric])
  from assms have "v div 262144 < 64" by simp
  then have b: "v div 262144 mod 64 = v div 64 div 64 div 64" using a by simp
  show ?thesis unfolding b a(1) by simp
qed

lemma byte_lt: "unat (a :: byte) < 256"
  using unsigned_less [of a] by simp

lemma div_step: "r < n \<Longrightarrow> (q * n + r) div n = (q::nat)"
  by simp

lemma mod_step: "r < n \<Longrightarrow> (q * n + r) mod n = (r::nat)"
  by simp

lemma triple:
  fixes a b c :: byte
  defines "v \<equiv> unat a * 65536 + unat b * 256 + unat c"
  shows "v < 16777216" "bytes3 v = [a, b, c]"
proof -
  have A: "unat a < 256" "unat b < 256" "unat c < 256" by (rule byte_lt)+
  then show "v < 16777216" unfolding v_def by simp
  have e: "v = (unat a * 256 + unat b) * 256 + unat c" unfolding v_def by simp
  have d: "v div 256 = unat a * 256 + unat b"
    unfolding e by (rule div_step) (rule A)
  have 1: "v div 256 mod 256 = unat b"
    unfolding d by (rule mod_step) (rule A)
  have "v div 65536 = v div 256 div 256"
    by (simp add: div_mult2_eq [symmetric])
  also have "\<dots> = unat a"
    unfolding d by (rule div_step) (rule A)
  finally have 2: "v div 65536 = unat a" .
  have 3: "v mod 256 = unat c"
    unfolding e by (rule mod_step) (rule A)
  show "bytes3 v = [a, b, c]"
    unfolding bytes3_def 1 2 3 by simp
qed

lemma DecodeString_full:
  assumes "c2 \<noteq> padChar" "c3 \<noteq> padChar"
  shows "DecodeString (c0 # c1 # c2 # c3 # rest) =
     (case decodeQuantum 0 [c0, c1, c2, c3] of
        None \<Rightarrow> None
      | Some v \<Rightarrow> map_option ((@) (bytes3 v)) (DecodeString rest))"
proof (cases rest)
  case Nil
  with assms show ?thesis
    by (cases "decodeQuantum 0 [c0, c1, c2, c3]") simp_all
next
  case (Cons x xs)
  show ?thesis unfolding Cons by simp
qed

lemma Encode3:
  "EncodeToString (a # b # c # rest) =
     encode ((unat a * 65536 + unat b * 256 + unat c) div 262144 mod 64) #
     encode ((unat a * 65536 + unat b * 256 + unat c) div 4096 mod 64) #
     encode ((unat a * 65536 + unat b * 256 + unat c) div 64 mod 64) #
     encode ((unat a * 65536 + unat b * 256 + unat c) mod 64) # EncodeToString rest"
  by (simp only: EncodeToString.simps Let_def append.simps)

lemma Encode2:
  "EncodeToString [a, b] =
     [encode ((unat a * 65536 + unat b * 256) div 262144 mod 64),
      encode ((unat a * 65536 + unat b * 256) div 4096 mod 64),
      encode ((unat a * 65536 + unat b * 256) div 64 mod 64), padChar]"
  by (simp only: EncodeToString.simps Let_def)

lemma Encode1:
  "EncodeToString [a] =
     [encode ((unat a * 65536) div 262144 mod 64),
      encode ((unat a * 65536) div 4096 mod 64), padChar, padChar]"
  by (simp only: EncodeToString.simps Let_def)

lemma roundtrip: "DecodeString (EncodeToString bs) = Some bs"
proof (induction bs rule: EncodeToString.induct)
  case (1 a b c rest)
  define v where "v = unat a * 65536 + unat b * 256 + unat c"
  have v: "v < 16777216" "bytes3 v = [a, b, c]"
    unfolding v_def by (rule triple)+
  have q: "decodeQuantum 0 [encode (v div 262144 mod 64), encode (v div 4096 mod 64),
         encode (v div 64 mod 64), encode (v mod 64)] = Some v"
    using decodeQuantum4 [of "v div 262144 mod 64" "v div 4096 mod 64" "v div 64 mod 64" "v mod 64"]
    unfolding sextets4 [OF v(1)] by simp
  have "DecodeString (EncodeToString (a # b # c # rest)) =
     DecodeString (encode (v div 262144 mod 64) # encode (v div 4096 mod 64) #
         encode (v div 64 mod 64) # encode (v mod 64) # EncodeToString rest)"
    unfolding Encode3 v_def ..
  also have "\<dots> = map_option ((@) (bytes3 v)) (DecodeString (EncodeToString rest))"
    by (subst DecodeString_full) (simp_all add: encode_not_pad q del: decodeQuantum.simps)
  also have "\<dots> = Some (a # b # c # rest)"
    unfolding "1.IH" v(2) by simp
  finally show ?case .
next
  case (2 a b)
  define v where "v = unat a * 65536 + unat b * 256"
  define w where "w = v div 64"
  have v: "v < 16777216" "bytes3 v = [a, b, 0]"
    using triple [of a b 0] by (simp_all add: v_def)
  have w: "w < 262144" using v(1) by (simp add: w_def)
  have e: "v div 262144 = w div 4096" "v div 4096 = w div 64"
    by (simp_all add: w_def div_mult2_eq [symmetric])
  have q: "decodeQuantum 0 [encode (w div 4096 mod 64), encode (w div 64 mod 64), encode (w mod 64)] = Some w"
    using decodeQuantum3 [of "w div 4096 mod 64" "w div 64 mod 64" "w mod 64"]
    unfolding sextets3 [OF w] by simp
  have d: "w div 1024 = v div 65536" "w div 4 = v div 256"
    by (simp_all add: w_def div_mult2_eq [symmetric])
  have b2: "bytes2 w = [a, b]"
    using v(2) unfolding bytes2_def bytes3_def d by simp
  have "EncodeToString [a, b] =
     [encode (w div 4096 mod 64), encode (w div 64 mod 64), encode (w mod 64), padChar]"
    unfolding Encode2 v_def [symmetric] e w_def [symmetric] ..
  then show ?case
    by (simp add: encode_not_pad q b2 del: decodeQuantum.simps)
next
  case (3 a)
  define v where "v = unat a * 65536"
  define u where "u = v div 4096"
  have v: "v < 16777216" "bytes3 v = [a, 0, 0]"
    using triple [of a 0 0] by (simp_all add: v_def)
  have u: "u < 4096" using v(1) by (simp add: u_def)
  have e: "v div 262144 = u div 64"
    by (simp add: u_def div_mult2_eq [symmetric])
  have q: "decodeQuantum 0 [encode (u div 64 mod 64), encode (u mod 64)] = Some u"
    using decodeQuantum2 [of "u div 64 mod 64" "u mod 64"]
    unfolding sextets2 [OF u] by simp
  have d: "u div 16 = v div 65536"
    by (simp add: u_def div_mult2_eq [symmetric])
  have b1: "bytes1 u = [a]"
    using v(2) unfolding bytes1_def bytes3_def d by simp
  have "EncodeToString [a] = [encode (u div 64 mod 64), encode (u mod 64), padChar, padChar]"
    unfolding Encode1 v_def [symmetric] e u_def [symmetric] ..
  then show ?case
    by (simp add: q b1 del: decodeQuantum.simps)
next
  case 4
  then show ?case by simp
qed


lemma length_EncodeToString: "length (EncodeToString bs) = 4 * ((length bs + 2) div 3)"
proof (induction bs rule: EncodeToString.induct)
  case (1 a b c rest)
  have "(length (a # b # c # rest) + 2) div 3 = Suc ((length rest + 2) div 3)"
    by simp
  with 1 show ?case by (simp add: Let_def)
qed (simp_all add: Let_def)

text \<open>
  C2. For every raw message with payload bytes \<open>B\<close> and every configuration, the envelope's
  \<open>message.data\<close> is the base64 encoding of \<open>B\<close>, and decoding that field gives back exactly
  \<open>B\<close>. The field is the encoding and not a copy of the payload: for a non-empty payload it
  is strictly longer than the payload.
\<close>

theorem transformMessage_data_base64:
  "PubSubMessage_Message.Data (Message (transformMessage msg cfg))
     = EncodeToString (pubsub_Message.Data msg) \<and>
   DecodeString (PubSubMessage_Message.Data (Message (transformMessage msg cfg)))
     = Some (pubsub_Message.Data msg) \<and>
   (pubsub_Message.Data msg \<noteq> [] \<longrightarrow>
      length (pubsub_Message.Data msg)
        < length (PubSubMessage_Message.Data (Message (transformMessage msg cfg))))"
proof -
  have "length bs < 4 * ((length bs + 2) div 3)" if "bs \<noteq> []" for bs :: "byte list"
  proof -
    from that have "0 < length bs" by simp
    then show ?thesis by arith
  qed
  then show ?thesis
    by (simp add: transformMessage_def roundtrip length_EncodeToString)
qed

theorem transformMessage_data_base64_witness:
  "PubSubMessage_Message.Data (Message (transformMessage example_msg example_cfg)) = ''aGVsbG8='' \<and>
   DecodeString ''aGVsbG8='' = Some [104, 101, 108, 108, 111] \<and>
   length [104 :: byte, 101, 108, 108, 111] < length ''aGVsbG8=''"
  using transformMessage_data_base64 [of example_msg example_cfg]
  by (simp add: transformMessage_def example_msg_def encode_def encodeStd_def padChar_def)

subsection \<open>The calendar of \<^verbatim>\<open>Format\<close> and the RFC 3339 reader\<close>

lemma int_div_step: "0 \<le> r \<Longrightarrow> r < n \<Longrightarrow> (q * n + r) div n = (q::int)"
  by (simp add: div_pos_pos_trivial)

lemma int_mod_step: "0 \<le> r \<Longrightarrow> r < n \<Longrightarrow> (q * n + r) mod n = (r::int)"
  by (simp add: mod_pos_pos_trivial)

lemma cut4: 
  fixes n :: int
  assumes "0 \<le> n" "n \<le> 4"
  shows "n - n div 4 = (if n = 4 then 3 else n)"
proof -
  from assms consider "n = 0" | "n = 1" | "n = 2" | "n = 3" | "n = 4" by linarith
  then show ?thesis by cases simp_all
qed

text \<open>What the cycle counts of absDate satisfy.\<close>

lemma cycles:
  fixes d :: int
  assumes n400_def: "n400 = d div 146097"
    and d1_def: "d1 = d mod 146097"
    and n_def: "n = d1 div 36524"
    and n100_def: "n100 = n - n div 4"
    and d2_def: "d2 = d1 - 36524 * n100"
    and n4_def: "n4 = d2 div 1461"
    and d3_def: "d3 = d2 mod 1461"
    and n'_def: "n' = d3 div 365"
    and n1_def: "n1 = n' - n' div 4"
    and yday_def: "yday = d3 - 365 * n1"
  shows "d = 146097 * n400 + 36524 * n100 + 1461 * n4 + 365 * n1 + yday"
    and "0 \<le> n100 \<and> n100 \<le> 3"
    and "0 \<le> n4 \<and> n4 \<le> 24"
    and "0 \<le> n1 \<and> n1 \<le> 3"
    and "0 \<le> yday \<and> yday \<le> 365"
    and "yday = 365 \<longrightarrow> n1 = 3 \<and> (n4 = 24 \<longrightarrow> n100 = 3)"
    and "- 366 \<le> d \<longrightarrow> 0 \<le> 400 * n400 + 100 * n100 + 4 * n4 + n1 + 1"
    and "d \<le> 3652058 \<longrightarrow> 400 * n400 + 100 * n100 + 4 * n4 + n1 + 1 \<le> 9999"
proof -
  have d1: "0 \<le> d1" "d1 < 146097" by (simp_all add: d1_def)
  have e0: "d = 146097 * n400 + d1" unfolding n400_def d1_def by simp
  define r1 where "r1 = d1 mod 36524"
  have r1: "0 \<le> r1" "r1 < 36524" by (simp_all add: r1_def)
  have e1: "d1 = 36524 * n + r1" unfolding n_def r1_def by simp
  from d1 r1 e1 have n: "0 \<le> n" "n \<le> 4" by linarith+
  have n100: "n100 = (if n = 4 then 3 else n)" unfolding n100_def using n by (rule cut4)
  have d2: "0 \<le> d2" "d2 \<le> 36524" "n100 < 3 \<longrightarrow> d2 < 36524"
    using d1 r1 e1 n n100 unfolding d2_def by (auto split: if_splits)
  have d3: "0 \<le> d3" "d3 < 1461" by (simp_all add: d3_def)
  have e2: "d2 = 1461 * n4 + d3" unfolding n4_def d3_def by simp
  from d2 d3 e2 have n4: "0 \<le> n4" "n4 \<le> 24" by linarith+
  define r3 where "r3 = d3 mod 365"
  have r3: "0 \<le> r3" "r3 < 365" by (simp_all add: r3_def)
  have e3: "d3 = 365 * n' + r3" unfolding n'_def r3_def by simp
  from d3 r3 e3 have n': "0 \<le> n'" "n' \<le> 4" by linarith+
  have n1: "n1 = (if n' = 4 then 3 else n')" unfolding n1_def using n' by (rule cut4)
  show "d = 146097 * n400 + 36524 * n100 + 1461 * n4 + 365 * n1 + yday"
    using e0 e2 unfolding yday_def d2_def by linarith
  show "0 \<le> n100 \<and> n100 \<le> 3" using n n100 by (auto split: if_splits)
  show "0 \<le> n4 \<and> n4 \<le> 24" using n4 by simp
  show "0 \<le> n1 \<and> n1 \<le> 3" using n' n1 by (auto split: if_splits)
  show "0 \<le> yday \<and> yday \<le> 365"
    using d3 r3 e3 n' n1 unfolding yday_def by (auto split: if_splits)
  show "yday = 365 \<longrightarrow> n1 = 3 \<and> (n4 = 24 \<longrightarrow> n100 = 3)"
  proof
    assume y: "yday = 365"
    with d3 r3 e3 n' n1 have a: "n1 = 3" "d3 = 1460"
      unfolding yday_def by (auto split: if_splits)
    have "n100 = 3" if "n4 = 24"
    proof (rule ccontr)
      assume "n100 \<noteq> 3"
      with \<open>0 \<le> n100 \<and> n100 \<le> 3\<close> have "n100 < 3" by simp
      with d2 have "d2 < 36524" by simp
      with e2 a that show False by simp
    qed
    with a show "n1 = 3 \<and> (n4 = 24 \<longrightarrow> n100 = 3)" by simp
  qed
  have b100: "0 \<le> n100" "n100 \<le> 3" using n n100 by (auto split: if_splits)
  have b1: "0 \<le> n1" "n1 \<le> 3" using n' n1 by (auto split: if_splits)
  show "- 366 \<le> d \<longrightarrow> 0 \<le> 400 * n400 + 100 * n100 + 4 * n4 + n1 + 1"
  proof
    assume lo: "- 366 \<le> d"
    with e0 d1 have "- 1 \<le> n400" by linarith
    then consider "0 \<le> n400" | "n400 = - 1" by linarith
    then show "0 \<le> 400 * n400 + 100 * n100 + 4 * n4 + n1 + 1"
    proof cases
      case 1
      with b100 n4 b1 show ?thesis by linarith
    next
      case 2
      with lo e0 have "145731 \<le> d1" by linarith
      with e1 r1 have "3 \<le> n" by linarith
      with n n100 have h: "n100 = 3" by (auto split: if_splits)
      with \<open>145731 \<le> d1\<close> have "36159 \<le> d2" unfolding d2_def by linarith
      with e2 d3 n4 have k: "n4 = 24" by linarith
      with \<open>36159 \<le> d2\<close> e2 have "1095 \<le> d3" by linarith
      with e3 r3 have "3 \<le> n'" by linarith
      with n' n1 have "n1 = 3" by (auto split: if_splits)
      with 2 h k show ?thesis by simp
    qed
  qed
  show "d \<le> 3652058 \<longrightarrow> 400 * n400 + 100 * n100 + 4 * n4 + n1 + 1 \<le> 9999"
  proof
    assume hi: "d \<le> 3652058"
    with e0 d1 have "n400 \<le> 24" by linarith
    then consider "n400 \<le> 23" | "n400 = 24" by linarith
    then show "400 * n400 + 100 * n100 + 4 * n4 + n1 + 1 \<le> 9999"
    proof cases
      case 1
      with b100 n4 b1 show ?thesis by linarith
    next
      case 2
      with hi e0 have u1: "d1 \<le> 145730" by linarith
      with e1 r1 have "n \<le> 3" by linarith
      with n100 have h: "n100 = n" by simp
      show ?thesis
      proof (cases "n100 = 3 \<and> n4 = 24")
        case True
        with u1 have "d2 \<le> 36158" unfolding d2_def by linarith
        with True e2 have "d3 \<le> 1094" by linarith
        with e3 r3 have "n' \<le> 2" by linarith
        with n1 have "n1 \<le> 2" by simp
        with 2 True show ?thesis by linarith
      next
        case False
        with b100 n4 consider "n100 \<le> 2" | "n100 = 3" "n4 \<le> 23" by linarith
        then show ?thesis
        proof cases
          case 1
          with 2 n4 b1 show ?thesis by linarith
        next
          case 2
          with \<open>n400 = 24\<close> b1 show ?thesis by linarith
        qed
      qed
    qed
  qed
qed

lemma days_before_year_cycles:
  fixes n400 n100 n4 n1 :: int
  assumes "0 \<le> n100 \<and> n100 \<le> 3" "0 \<le> n4 \<and> n4 \<le> 24" "0 \<le> n1 \<and> n1 \<le> 3"
  shows "days_before_year (400 * n400 + 100 * n100 + 4 * n4 + n1 + 1) =
         146097 * n400 + 36524 * n100 + 1461 * n4 + 365 * n1"
proof -
  define z where "z = 400 * n400 + 100 * n100 + 4 * n4 + n1"
  have "z = (100 * n400 + 25 * n100 + n4) * 4 + n1" by (simp add: z_def)
  then have "z div 4 = (100 * n400 + 25 * n100 + n4) * 4 div 4 + n1 div 4 \<and> z div 4 = 100 * n400 + 25 * n100 + n4"
    using assms(3) int_div_step [of n1 4 "100 * n400 + 25 * n100 + n4"] by simp
  then have q4: "z div 4 = 100 * n400 + 25 * n100 + n4" ..
  have "z = (4 * n400 + n100) * 100 + (4 * n4 + n1)" by (simp add: z_def)
  moreover have "0 \<le> 4 * n4 + n1" "4 * n4 + n1 < 100" using assms by linarith+
  ultimately have q100: "z div 100 = 4 * n400 + n100"
    using int_div_step [of "4 * n4 + n1" 100 "4 * n400 + n100"] by simp
  have "z = n400 * 400 + (100 * n100 + 4 * n4 + n1)" by (simp add: z_def)
  moreover have "0 \<le> 100 * n100 + 4 * n4 + n1" "100 * n100 + 4 * n4 + n1 < 400" using assms by linarith+
  ultimately have q400: "z div 400 = n400"
    using int_div_step [of "100 * n100 + 4 * n4 + n1" 400 n400] by simp
  have "days_before_year (z + 1) = 365 * z + z div 4 - z div 100 + z div 400"
    by (simp add: days_before_year_def)
  also have "\<dots> = 146097 * n400 + 36524 * n100 + 1461 * n4 + 365 * n1"
    unfolding q4 q100 q400 by (simp add: z_def)
  finally show ?thesis by (simp add: z_def)
qed

lemma isLeap_cycles:
  fixes n400 n100 n4 :: int
  assumes "0 \<le> n100 \<and> n100 \<le> 3" "0 \<le> n4 \<and> n4 \<le> 24" "n4 = 24 \<longrightarrow> n100 = 3"
  shows "isLeap (400 * n400 + 100 * n100 + 4 * n4 + 3 + 1)"
proof -
  define y where "y = 400 * n400 + 100 * n100 + 4 * n4 + 3 + 1"
  have "y = (100 * n400 + 25 * n100 + n4 + 1) * 4" by (simp add: y_def)
  then have m4: "y mod 4 = 0" by simp
  show ?thesis
  proof (cases "n4 = 24")
    case True
    with assms have "y = (n400 + 1) * 400" by (simp add: y_def)
    then have "y mod 400 = 0" by simp
    with m4 show ?thesis by (simp add: isLeap_def y_def)
  next
    case False
    with assms have b: "0 \<le> 4 * n4 + 4" "4 * n4 + 4 < 100" by linarith+
    have "y = (4 * n400 + n100) * 100 + (4 * n4 + 4)" by (simp add: y_def)
    with b have "y mod 100 = 4 * n4 + 4"
      using int_mod_step [of "4 * n4 + 4" 100 "4 * n400 + n100"] by simp
    with b assms have "y mod 100 \<noteq> 0" by linarith
    with m4 show ?thesis by (simp add: isLeap_def y_def)
  qed
qed

lemma absDate_spec:
  assumes "absDate days = (y, yday)"
  shows "0 \<le> yday" "yday < (if isLeap y then 366 else 365)"
    "days_before_year y + yday = days + 719162"
proof -
  define d where "d = days + 719162"
  define n400 where "n400 = d div 146097"
  define d1 where "d1 = d mod 146097"
  define n where "n = d1 div 36524"
  define n100 where "n100 = n - n div 4"
  define d2 where "d2 = d1 - 36524 * n100"
  define n4 where "n4 = d2 div 1461"
  define d3 where "d3 = d2 mod 1461"
  define n' where "n' = d3 div 365"
  define n1 where "n1 = n' - n' div 4"
  define yd where "yd = d3 - 365 * n1"
  have "absDate days = (400 * n400 + 100 * n100 + 4 * n4 + n1 + 1, yd)"
    unfolding absDate_def Let_def yd_def n1_def n'_def d3_def n4_def d2_def n100_def n_def d1_def
      n400_def d_def ..
  with assms have y: "y = 400 * n400 + 100 * n100 + 4 * n4 + n1 + 1" and yd: "yday = yd"
    by simp_all
  note c = cycles [OF n400_def d1_def n_def n100_def d2_def n4_def d3_def n'_def n1_def yd_def]
  from c(5) show "0 \<le> yday" by (simp add: yd)
  from days_before_year_cycles [OF c(2) c(3) c(4), of n400] c(1)
  show "days_before_year y + yday = days + 719162"
    by (simp add: y yd d_def)
  show "yday < (if isLeap y then 366 else 365)"
  proof (cases "yd = 365")
    case True
    with c(6) have "n1 = 3" "n4 = 24 \<longrightarrow> n100 = 3" by simp_all
    with isLeap_cycles [OF c(2) c(3), of n400] have "isLeap y" by (simp add: y)
    with True show ?thesis by (simp add: yd)
  next
    case False
    with c(5) show ?thesis by (simp add: yd)
  qed
qed

lemma absDate_year_range:
  assumes "absDate days = (y, yday)" "- 719528 \<le> days" "days \<le> 2932896"
  shows "0 \<le> y" "y \<le> 9999"
proof -
  define d where "d = days + 719162"
  define n400 where "n400 = d div 146097"
  define d1 where "d1 = d mod 146097"
  define n where "n = d1 div 36524"
  define n100 where "n100 = n - n div 4"
  define d2 where "d2 = d1 - 36524 * n100"
  define n4 where "n4 = d2 div 1461"
  define d3 where "d3 = d2 mod 1461"
  define n' where "n' = d3 div 365"
  define n1 where "n1 = n' - n' div 4"
  define yd where "yd = d3 - 365 * n1"
  have "absDate days = (400 * n400 + 100 * n100 + 4 * n4 + n1 + 1, yd)"
    unfolding absDate_def Let_def yd_def n1_def n'_def d3_def n4_def d2_def n100_def n_def d1_def
      n400_def d_def ..
  with assms(1) have y: "y = 400 * n400 + 100 * n100 + 4 * n4 + n1 + 1"
    by simp
  note c = cycles [OF n400_def d1_def n_def n100_def d2_def n4_def d3_def n'_def n1_def yd_def]
  from assms(2) have "- 366 \<le> d" by (simp add: d_def)
  with c(7) show "0 \<le> y" by (simp add: y)
  from assms(3) have "d \<le> 3652058" by (simp add: d_def)
  with c(8) show "y \<le> 9999" by (simp add: y)
qed

lemma twelve:
  fixes m :: int
  assumes "lo \<le> m" "m \<le> lo + 11"
  shows "m = lo \<or> m = lo + 1 \<or> m = lo + 2 \<or> m = lo + 3 \<or> m = lo + 4 \<or> m = lo + 5 \<or>
    m = lo + 6 \<or> m = lo + 7 \<or> m = lo + 8 \<or> m = lo + 9 \<or> m = lo + 10 \<or> m = lo + 11"
  using assms by presburger

lemma month_cases:
  fixes m :: int
  assumes "1 \<le> m" "m \<le> 12"
  obtains "m = 1" | "m = 2" | "m = 3" | "m = 4" | "m = 5" | "m = 6"
    | "m = 7" | "m = 8" | "m = 9" | "m = 10" | "m = 11" | "m = 12"
  using twelve [of 1 m] assms by auto

lemma days_before_month_table:
  assumes "1 \<le> m" "m \<le> 12"
  shows "days_before_month y m =
     daysBefore ! nat (m - 1) + (if leap_year y \<and> 2 < m then 1 else 0)"
  using assms
  by (cases m rule: month_cases)
     (simp_all add: days_before_month_def days_in_month_def daysBefore_def upto.simps)

lemma days_in_month_table:
  assumes "1 \<le> m" "m \<le> 12"
  shows "daysBefore ! nat m - daysBefore ! nat (m - 1) =
     (if m = 2 then 28 else days_in_month y m)"
  using assms
  by (cases m rule: month_cases)
     (simp_all add: days_in_month_def daysBefore_def)

lemma month_estimate:
  fixes day :: int
  assumes "0 \<le> day" "day \<le> 364"
    and "k = day div 31"
    and "e = daysBefore ! nat (k + 1)"
    and "(m, d) = (if day \<ge> e then (k + 2, day - e + 1) else (k + 1, day - daysBefore ! nat k + 1))"
  shows "1 \<le> m \<and> m \<le> 12 \<and> 1 \<le> d \<and> daysBefore ! nat (m - 1) + d - 1 = day \<and>
     day < daysBefore ! nat m"
proof -
  define r where "r = day mod 31"
  have r: "0 \<le> r" "r < 31" by (simp_all add: r_def)
  have e: "day = 31 * k + r" unfolding assms(3) r_def by simp
  with assms(1,2) r have "0 \<le> k" "k \<le> 11" by linarith+
  then consider "k = 0" | "k = 1" | "k = 2" | "k = 3" | "k = 4" | "k = 5"
    | "k = 6" | "k = 7" | "k = 8" | "k = 9" | "k = 10" | "k = 11"
    using twelve [of 0 k] by auto
  then show ?thesis
    using assms(2,4,5) e r
    by cases (auto simp: daysBefore_def split: if_splits)
qed

lemma isLeap_leap_year: "isLeap y = leap_year y"
  by (simp add: isLeap_def leap_year_def)

lemma Date_spec:
  assumes "Date days = (y, m, d)"
  shows "1 \<le> m \<and> m \<le> 12 \<and> 1 \<le> d \<and> d \<le> days_in_month y m \<and> days_from_civil y m d = days"
proof -
  obtain yy yday where a: "absDate days = (yy, yday)"
    by (cases "absDate days")
  note s = absDate_spec [OF a]
  show ?thesis
  proof (cases "isLeap yy \<and> yday = 59")
    case True
    with assms a have "y = yy" "m = 2" "d = 29"
      by (simp_all add: Date_def)
    with True s(3) show ?thesis
      by (simp add: days_from_civil_def days_before_month_def days_in_month_def upto.simps
          isLeap_leap_year)
  next
    case False
    define day where "day = (if isLeap yy \<and> yday > 59 then yday - 1 else yday)"
    define k where "k = day div 31"
    define e where "e = daysBefore ! nat (k + 1)"
    from assms a False
    have r: "(y, m, d) = (if day \<ge> e then (yy, k + 2, day - e + 1)
        else (yy, k + 1, day - daysBefore ! nat k + 1))"
      unfolding Date_def Let_def day_def k_def e_def by simp
    then have y: "y = yy" by (simp split: if_splits)
    from r have md: "(m, d) = (if day \<ge> e then (k + 2, day - e + 1)
        else (k + 1, day - daysBefore ! nat k + 1))"
      by (simp split: if_splits)
    from s(1,2) False have b: "0 \<le> day" "day \<le> 364"
      unfolding day_def by (auto split: if_splits)
    from month_estimate [OF b k_def e_def md]
    have m: "1 \<le> m" "m \<le> 12" and d: "1 \<le> d"
      and sum: "daysBefore ! nat (m - 1) + d - 1 = day"
      and lt: "day < daysBefore ! nat m"
      by simp_all
    from sum lt have len: "d \<le> daysBefore ! nat m - daysBefore ! nat (m - 1)" by linarith
    note dbm = days_before_month_table [OF m, of y]
    note dim = days_in_month_table [OF m, of y]
    have l: "leap_year y = isLeap yy" by (simp add: y isLeap_leap_year)
    consider (plain) "\<not> isLeap yy" | (before) "isLeap yy" "yday < 59" | (after) "isLeap yy" "59 < yday"
      using False by linarith
    then have "d \<le> days_in_month y m \<and> days_before_month y m + (d - 1) = yday"
    proof cases
      case plain
      then have "day = yday" by (simp add: day_def)
      with plain sum len dbm dim l show ?thesis
        by (auto simp: days_in_month_def split: if_splits)
    next
      case before
      then have e: "day = yday" by (simp add: day_def)
      have "m \<le> 2"
      proof (rule ccontr)
        assume "\<not> m \<le> 2"
        with m have "3 \<le> m" by simp
        with m have "59 \<le> daysBefore ! nat (m - 1)"
          by (cases m rule: month_cases) (simp_all add: daysBefore_def)
        with sum d e before show False by linarith
      qed
      with e sum len dbm dim l show ?thesis
        by (auto simp: days_in_month_def split: if_splits)
    next
      case after
      then have e: "day = yday - 1" by (simp add: day_def)
      have "3 \<le> m"
      proof (rule ccontr)
        assume "\<not> 3 \<le> m"
        with m have "daysBefore ! nat m \<le> 59"
          by (cases m rule: month_cases) (simp_all add: daysBefore_def)
        with lt e after show False by linarith
      qed
      with e sum len dbm dim l after show ?thesis
        by (auto simp: days_in_month_def split: if_splits)
    qed
    with m d s(3) show ?thesis
      by (simp add: days_from_civil_def y)
  qed
qed

lemma Date_absDate: "Date days = (y, m, d) \<Longrightarrow> \<exists>yday. absDate days = (y, yday)"
  by (cases "absDate days") (auto simp: Date_def Let_def split: if_splits)

lemma digitVal_digits: "n < 10 \<Longrightarrow> digitVal (digits ! n) = Some n"
  unfolding digitVal_def digits_def by (rule index_of_nth) simp_all

lemma parseNat2:
  "a < 10 \<Longrightarrow> b < 10 \<Longrightarrow> parseNat 0 [digits ! a, digits ! b] = Some (a * 10 + b)"
  by (simp add: digitVal_digits)

lemma parseNat4:
  "a < 10 \<Longrightarrow> b < 10 \<Longrightarrow> c < 10 \<Longrightarrow> d < 10 \<Longrightarrow>
   parseNat 0 [digits ! a, digits ! b, digits ! c, digits ! d] = Some (((a * 10 + b) * 10 + c) * 10 + d)"
  by (simp add: digitVal_digits)

lemma itoa1: "n < 10 \<Longrightarrow> itoa n = [digits ! n]"
  by (simp add: itoa.simps)

lemma itoa2: "10 \<le> n \<Longrightarrow> n < 100 \<Longrightarrow> itoa n = [digits ! (n div 10), digits ! (n mod 10)]"
  using itoa.simps [of n] itoa1 [of "n div 10"] by simp

lemma itoa3:
  "100 \<le> n \<Longrightarrow> n < 1000 \<Longrightarrow>
   itoa n = [digits ! (n div 10 div 10), digits ! (n div 10 mod 10), digits ! (n mod 10)]"
  using itoa.simps [of n] itoa2 [of "n div 10"] by simp

lemma itoa4:
  "1000 \<le> n \<Longrightarrow> n < 10000 \<Longrightarrow>
   itoa n = [digits ! (n div 10 div 10 div 10), digits ! (n div 10 div 10 mod 10),
             digits ! (n div 10 mod 10), digits ! (n mod 10)]"
  using itoa.simps [of n] itoa3 [of "n div 10"] by simp

lemma zero_digit: "CHR ''0'' = digits ! 0"
  by (simp add: digits_def)

lemma appendInt2:
  assumes "0 \<le> x" "x < 100"
  shows "appendInt x 2 = [digits ! (nat x div 10), digits ! (nat x mod 10)]"
proof (cases "nat x < 10")
  case True
  with assms show ?thesis
    by (simp add: appendInt_def itoa1 zero_digit)
next
  case False
  with assms have "10 \<le> nat x" "nat x < 100" by linarith+
  with assms show ?thesis
    by (simp add: appendInt_def itoa2)
qed

lemma replicate_few:
  "replicate 3 c = [c, c, c]" "replicate 2 c = [c, c]"
  by (simp_all add: numeral_3_eq_3 numeral_2_eq_2)

lemma appendInt4:
  assumes "0 \<le> x" "x < 10000"
  shows "appendInt x 4 =
     [digits ! (nat x div 10 div 10 div 10), digits ! (nat x div 10 div 10 mod 10),
      digits ! (nat x div 10 mod 10), digits ! (nat x mod 10)]"
proof -
  define n where "n = nat x"
  from assms have n: "n < 10000" and a: "\<not> x < 0" "nat \<bar>x\<bar> = n" by (simp_all add: n_def)
  consider "n < 10" | "10 \<le> n" "n < 100" | "100 \<le> n" "n < 1000" | "1000 \<le> n"
    by linarith
  then have "replicate (4 - length (itoa n)) (digits ! 0) @ itoa n =
     [digits ! (n div 10 div 10 div 10), digits ! (n div 10 div 10 mod 10),
      digits ! (n div 10 mod 10), digits ! (n mod 10)]"
  proof cases
    case 1
    then show ?thesis by (simp add: itoa1 replicate_few)
  next
    case 2
    then show ?thesis by (simp add: itoa2 replicate_few)
  next
    case 3
    then show ?thesis by (simp add: itoa3)
  next
    case 4
    with n show ?thesis by (simp add: itoa4)
  qed
  then show ?thesis
    unfolding appendInt_def Let_def a zero_digit n_def [symmetric] using a(1) by simp
qed

lemma decimal2: "(n::nat) div 10 * 10 + n mod 10 = n"
  by simp

lemma decimal4: "(((n::nat) div 10 div 10 div 10 * 10 + n div 10 div 10 mod 10) * 10 + n div 10 mod 10) * 10 +
    n mod 10 = n"
  by simp

lemma parseNat_two:
  assumes "k < 100"
  shows "parseNat 0 [digits ! (k div 10), digits ! (k mod 10)] = Some k"
proof -
  from assms have "k div 10 < 10" by simp
  then show ?thesis
    using parseNat2 [of "k div 10" "k mod 10"] unfolding decimal2 by simp
qed

lemma Parse_fields:
  assumes "y < 10000" "1 \<le> m" "m \<le> 12" "1 \<le> d" "int d \<le> days_in_month (int y) (int m)"
    "h < 24" "n < 60" "s < 60" "parseZone zone = Some z"
  shows "Parse_RFC3339
     ([digits ! (y div 10 div 10 div 10), digits ! (y div 10 div 10 mod 10),
       digits ! (y div 10 mod 10), digits ! (y mod 10)] @ ''-'' @
      [digits ! (m div 10), digits ! (m mod 10)] @ ''-'' @
      [digits ! (d div 10), digits ! (d mod 10)] @ ''T'' @
      [digits ! (h div 10), digits ! (h mod 10)] @ '':'' @
      [digits ! (n div 10), digits ! (n mod 10)] @ '':'' @
      [digits ! (s div 10), digits ! (s mod 10)] @ zone) =
     Some (days_from_civil (int y) (int m) (int d) * 86400 + int h * 3600 + int n * 60 + int s, z)"
proof -
  from assms(1) have "y div 10 div 10 div 10 < 10" by simp
  then have py: "parseNat 0 [digits ! (y div 10 div 10 div 10), digits ! (y div 10 div 10 mod 10),
       digits ! (y div 10 mod 10), digits ! (y mod 10)] = Some y"
    using parseNat4 [of "y div 10 div 10 div 10" "y div 10 div 10 mod 10" "y div 10 mod 10" "y mod 10"]
    unfolding decimal4 by simp
  from assms(5) have "int d \<le> 31" by (simp add: days_in_month_def split: if_splits)
  with assms have lt: "m < 100" "d < 100" "h < 100" "n < 100" "s < 100" by linarith+
  note p = py parseNat_two [OF lt(1)] parseNat_two [OF lt(2)] parseNat_two [OF lt(3)]
    parseNat_two [OF lt(4)] parseNat_two [OF lt(5)]
  show ?thesis
    using assms(2-9)
    by (simp add: p del: parseNat.simps)
qed

lemma parseZone_formatZone:
  assumes "- 86400 < off" "off < 86400"
  shows "parseZone (formatZone off) = Some (60 * quo off 60)"
proof (cases "off = 0")
  case True
  then show ?thesis by (simp add: formatZone_def quo_def)
next
  case False
  define zone where "zone = quo off 60"
  define H where "H = nat (\<bar>zone\<bar> div 60)"
  define M where "M = nat (\<bar>zone\<bar> mod 60)"
  have az: "\<bar>zone\<bar> = \<bar>off\<bar> div 60"
    by (simp add: zone_def quo_def)
  from assms have "\<bar>off\<bar> < 86400" by linarith
  then have "\<bar>off\<bar> div 60 < 1440" by simp
  with az have z: "0 \<le> \<bar>zone\<bar>" "\<bar>zone\<bar> < 1440" by simp_all
  then have hb: "0 \<le> \<bar>zone\<bar> div 60" "\<bar>zone\<bar> div 60 < 24" by simp_all
  have mb: "0 \<le> \<bar>zone\<bar> mod 60" "\<bar>zone\<bar> mod 60 < 60" by simp_all
  from hb mb have H: "H < 24" "int H = \<bar>zone\<bar> div 60" and M: "M < 60" "int M = \<bar>zone\<bar> mod 60"
    by (simp_all add: H_def M_def)
  have fh: "appendInt (\<bar>zone\<bar> div 60) 2 = [digits ! (H div 10), digits ! (H mod 10)]"
    unfolding H_def using hb by (intro appendInt2) simp_all
  have fm: "appendInt (\<bar>zone\<bar> mod 60) 2 = [digits ! (M div 10), digits ! (M mod 10)]"
    unfolding M_def using mb by (intro appendInt2) simp_all
  from H(1) have ph: "parseNat 0 [digits ! (H div 10), digits ! (H mod 10)] = Some H"
    by (intro parseNat_two) simp
  from M(1) have pm: "parseNat 0 [digits ! (M div 10), digits ! (M mod 10)] = Some M"
    by (intro parseNat_two) simp
  have v: "int H * 3600 + int M * 60 = 60 * \<bar>zone\<bar>"
  proof -
    have "\<bar>zone\<bar> = 60 * (\<bar>zone\<bar> div 60) + \<bar>zone\<bar> mod 60" by simp
    with H(2) M(2) show ?thesis by linarith
  qed
  have f: "formatZone off = (if zone < 0 then ''-'' else ''+'') @
      [digits ! (H div 10), digits ! (H mod 10)] @ '':'' @ [digits ! (M div 10), digits ! (M mod 10)]"
    unfolding formatZone_def Let_def zone_def [symmetric] fh fm using False by simp
  show ?thesis
  proof (cases "zone < 0")
    case True
    with v have "- (int H * 3600 + int M * 60) = 60 * zone" by simp
    with True H M show ?thesis
      unfolding f zone_def [symmetric] by (simp add: ph pm del: parseNat.simps)
  next
    case False
    with v have "int H * 3600 + int M * 60 = 60 * zone" by simp
    with False H M show ?thesis
      unfolding f zone_def [symmetric] by (simp add: ph pm del: parseNat.simps)
  qed
qed

lemma clock:
  fixes s :: int
  assumes "0 \<le> s" "s < 86400"
  shows "0 \<le> s div 3600" "s div 3600 < 24" "0 \<le> s mod 3600 div 60" "s mod 3600 div 60 < 60"
    "0 \<le> s mod 60" "s mod 60 < 60"
    "s div 3600 * 3600 + s mod 3600 div 60 * 60 + s mod 60 = s"
proof -
  from assms show "0 \<le> s div 3600" "s div 3600 < 24" by simp_all
  show "0 \<le> s mod 3600 div 60" "s mod 3600 div 60 < 60" "0 \<le> s mod 60" "s mod 60 < 60"
    by simp_all
  have "s mod 3600 mod 60 = s mod 60"
    by (simp add: mod_mod_cancel)
  then have "s mod 3600 = s mod 3600 div 60 * 60 + s mod 60"
    using div_mult_mod_eq [of "s mod 3600" 60] by simp
  then show "s div 3600 * 3600 + s mod 3600 div 60 * 60 + s mod 60 = s"
    using div_mult_mod_eq [of s 3600] by linarith
qed

lemma Parse_Format:
  assumes "- 62167219200 \<le> unixSec t + zoneOffset t"
    and "unixSec t + zoneOffset t < 253402300800"
    and "- 86400 < zoneOffset t" and "zoneOffset t < 86400"
  shows "Parse_RFC3339 (Format_RFC3339 t) =
     Some (unixSec t + zoneOffset t, 60 * quo (zoneOffset t) 60)"
proof -
  define L where "L = unixSec t + zoneOffset t"
  define days where "days = L div 86400"
  define s where "s = L mod 86400"
  obtain y m d where D: "Date days = (y, m, d)"
    by (cases "Date days")
  have s: "0 \<le> s" "s < 86400" by (simp_all add: s_def)
  have L: "L = days * 86400 + s" by (simp add: days_def s_def)
  from assms(1,2) L s have db: "- 719528 \<le> days" "days \<le> 2932896"
    unfolding L_def [symmetric] by linarith+
  from Date_absDate [OF D] obtain yday where "absDate days = (y, yday)" ..
  from absDate_year_range [OF this db] have y: "0 \<le> y" "y < 10000" by simp_all
  from Date_spec [OF D] have m: "1 \<le> m" "m \<le> 12" and d: "1 \<le> d" "d \<le> days_in_month y m"
    and c: "days_from_civil y m d = days"
    by simp_all
  from d(2) have d31: "d \<le> 31" by (simp add: days_in_month_def split: if_splits)
  note k = clock [OF s]
  have F: "Format_RFC3339 t =
      appendInt y 4 @ ''-'' @ appendInt m 2 @ ''-'' @ appendInt d 2 @ ''T'' @
      appendInt (s div 3600) 2 @ '':'' @ appendInt (s mod 3600 div 60) 2 @ '':'' @
      appendInt (s mod 60) 2 @ formatZone (zoneOffset t)"
    unfolding Format_RFC3339_def Let_def L_def [symmetric] days_def [symmetric] s_def [symmetric] D
    by simp
  have a: "appendInt y 4 =
      [digits ! (nat y div 10 div 10 div 10), digits ! (nat y div 10 div 10 mod 10),
       digits ! (nat y div 10 mod 10), digits ! (nat y mod 10)]"
    using y by (rule appendInt4)
  from m d31 d(1) have b: "0 \<le> m" "m < 100" "0 \<le> d" "d < 100" by linarith+
  from k(2,4,6) have b': "s div 3600 < 100" "s mod 3600 div 60 < 100" "s mod 60 < 100" by linarith+
  note e = appendInt2 [OF b(1,2)] appendInt2 [OF b(3,4)] appendInt2 [OF k(1) b'(1)]
    appendInt2 [OF k(3) b'(2)] appendInt2 [OF k(5) b'(3)]
  from y have ny: "nat y < 10000" by simp
  from m have nm: "1 \<le> nat m" "nat m \<le> 12" by simp_all
  from d(1) have nd: "1 \<le> nat d" by simp
  from y m d have nl: "int (nat d) \<le> days_in_month (int (nat y)) (int (nat m))" by simp
  from k(1,2) have nh: "nat (s div 3600) < 24" by simp
  from k(3,4) have nn: "nat (s mod 3600 div 60) < 60" by simp
  from k(5,6) have ns: "nat (s mod 60) < 60" by simp
  note z = parseZone_formatZone [OF assms(3,4)]
  have P: "Parse_RFC3339 (Format_RFC3339 t) =
     Some (days_from_civil (int (nat y)) (int (nat m)) (int (nat d)) * 86400 +
       int (nat (s div 3600)) * 3600 + int (nat (s mod 3600 div 60)) * 60 + int (nat (s mod 60)),
       60 * quo (zoneOffset t) 60)"
    unfolding F a e by (rule Parse_fields [OF ny nm nd nl nh nn ns z])
  have "days_from_civil (int (nat y)) (int (nat m)) (int (nat d)) =  days"
    using y(1) m(1) d(1) c by simp
  moreover have "int (nat (s div 3600)) = s div 3600" "int (nat (s mod 3600 div 60)) = s mod 3600 div 60"
    "int (nat (s mod 60)) = s mod 60"
    using k(1,3,5) by simp_all
  ultimately have "days_from_civil (int (nat y)) (int (nat m)) (int (nat d)) * 86400 +
       int (nat (s div 3600)) * 3600 + int (nat (s mod 3600 div 60)) * 60 + int (nat (s mod 60)) =
     days * 86400 + (s div 3600 * 3600 + s mod 3600 div 60 * 60 + s mod 60)"
    by (simp only: add.assoc)
  also have "\<dots> = L" unfolding k(7) L ..
  finally show ?thesis
    unfolding P L_def by simp
qed

subsection \<open>Coercion to valid UTF-8\<close>

lemma coerceUTF8_valid: "ValidString s \<Longrightarrow> coerceUTF8 s = s"
proof (induction s rule: ValidString.induct)
  case 1
  then show ?case by simp
next
  case (2 c cs)
  define size where "size = runeSize (map of_char (c # cs))"
  from "2.prems" have n: "size \<noteq> 0" and v: "ValidString (drop size (c # cs))"
    by (simp_all add: size_def Let_def split: if_splits)
  from "2.IH" [OF size_def n v] have "coerceUTF8 (drop size (c # cs)) = drop size (c # cs)" .
  with n have "coerceUTF8 (c # cs) = take size (c # cs) @ drop size (c # cs)"
    by (simp add: size_def Let_def)
  then show ?case by (simp only: append_take_drop_id)
qed

lemma ValidString_ascii: "\<forall>c\<in>set s. (of_char c :: nat) < 128 \<Longrightarrow> ValidString s"
  by (induction s) simp_all

lemma digits_ascii: "\<forall>c\<in>set digits. (of_char c :: nat) < 128"
  by (simp add: digits_def)

lemma itoa_ascii: "\<forall>c\<in>set (itoa n). (of_char c :: nat) < 128"
proof (induction n rule: itoa.induct)
  case (1 n)
  have d: "(of_char (digits ! k) :: nat) < 128" if "k < 10" for k
  proof -
    from that have "k < length digits" by (simp add: digits_def)
    then have "digits ! k \<in> set digits" by (rule nth_mem)
    with digits_ascii show ?thesis by blast
  qed
  show ?case
  proof (cases "n < 10")
    case True
    then show ?thesis using d [of n] by (simp add: itoa.simps [of n])
  next
    case False
    with "1.IH" d [of "n mod 10"] show ?thesis
      by (simp add: itoa.simps [of n])
  qed
qed

lemma appendInt_ascii: "\<forall>c\<in>set (appendInt x w). (of_char c :: nat) < 128"
  using itoa_ascii [of "nat \<bar>x\<bar>"] by (auto simp: appendInt_def Let_def)

lemma formatZone_ascii: "\<forall>c\<in>set (formatZone off). (of_char c :: nat) < 128"
  using appendInt_ascii by (auto simp: formatZone_def Let_def)

lemma Format_RFC3339_ascii: "\<forall>c\<in>set (Format_RFC3339 t). (of_char c :: nat) < 128"
  using appendInt_ascii formatZone_ascii
  by (auto simp: Format_RFC3339_def Let_def split: prod.splits)

lemma coerceUTF8_Format: "coerceUTF8 (Format_RFC3339 t) = Format_RFC3339 t"
  by (intro coerceUTF8_valid ValidString_ascii Format_RFC3339_ascii)

subsection \<open>The receive loop\<close>

lemma sendPOST_logs: "set (logs s) \<subseteq> set (logs (snd (sendPOST env url payload s)))"
  by (auto simp: sendPOST_def log_Println_def Let_def split: sum.splits option.splits prod.splits)

lemma callback_logs: "set (logs s) \<subseteq> set (logs (snd (callback env cfg msg s)))"
proof -
  obtain r s' where p: "sendPOST env (Config.URL cfg) (transformMessage msg cfg) s = (r, s')"
    by (cases "sendPOST env (Config.URL cfg) (transformMessage msg cfg) s")
  with sendPOST_logs [of s env "Config.URL cfg" "transformMessage msg cfg"]
  have "set (logs s) \<subseteq> set (logs s')" by simp
  with p show ?thesis
    by (cases r) (auto simp: callback_def log_Println_def)
qed

lemma callback_calls:
  "fst (callback env cfg msg s) =
     (if fst (sendPOST env (Config.URL cfg) (transformMessage msg cfg) s) = None then [Ack] else [Nack])"
  by (cases "sendPOST env (Config.URL cfg) (transformMessage msg cfg) s")
     (auto simp: callback_def split: option.splits)

lemma Receive_append:
  "Receive f (xs @ ys) s =
     (case Receive f xs s of (c1, s1) \<Rightarrow>
        (case Receive f ys s1 of (c2, s2) \<Rightarrow> (c1 @ c2, s2)))"
  by (induction xs arbitrary: s) (auto split: prod.splits)

lemma Receive_length: "length (fst (Receive f msgs s)) = length msgs"
proof (induction msgs arbitrary: s)
  case Nil
  then show ?case by simp
next
  case (Cons m ms)
  obtain c s1 where 1: "f m s = (c, s1)"
    by (cases "f m s")
  obtain cs s2 where 2: "Receive f ms s1 = (cs, s2)"
    by (cases "Receive f ms s1")
  from Cons.IH [of s1] 2 have "length cs = length ms" by simp
  with 1 2 show ?case by simp
qed

lemma Receive_logs:
  "set (logs s) \<subseteq> set (logs (snd (Receive (callback env cfg) msgs s)))"
proof (induction msgs arbitrary: s)
  case Nil
  then show ?case by simp
next
  case (Cons m ms)
  obtain c s1 where 1: "callback env cfg m s = (c, s1)"
    by (cases "callback env cfg m s")
  obtain cs s2 where 2: "Receive (callback env cfg) ms s1 = (cs, s2)"
    by (cases "Receive (callback env cfg) ms s1")
  from callback_logs [of s env cfg m] 1 have "set (logs s) \<subseteq> set (logs s1)" by simp
  moreover from Cons.IH [of s1] 2 have "set (logs s1) \<subseteq> set (logs s2)" by simp
  ultimately show ?case using 1 2 by simp
qed

subsection \<open>The example run\<close>

lemma Format_example:
  "Format_RFC3339 \<lparr> unixSec = 1704067200, nsec = 0, zoneOffset = 0 \<rparr> = ''2024-01-01T00:00:00Z''"
  by code_simp

lemma example_marshal: "json_Marshal (transformMessage example_msg example_cfg) = Inr example_body"
  by (simp add: json_Marshal_def marshal_Message_def marshal_map_def transformMessage_def
      marshal_string_def example_msg_def example_cfg_def example_body_def Format_example
      encode_def encodeStd_def padChar_def sorted_list_of_fset.rep_eq)

lemmas example_defs =
  callback_def sendPOST_def http_NewRequest_def Header_Set_def post_request_def
  example_env_def example_respond_def example_state_def log_Println_def Let_def
  Errorf_w_def Errorf_s_def

lemma example_URL: "Config.URL example_cfg = ''http://x/y''"
  by (simp add: example_cfg_def)

lemma example_ID: "ID example_msg = ''m1''"
  by (simp add: example_msg_def)

lemma example_first:
  "Receive (callback example_env example_cfg) [example_msg] example_state =
     ([[Ack]],
      \<lparr> world = [post_request ''http://x/y'' example_body],
        logs = [''Message processed successfully.''] \<rparr>)"
  by (simp add: example_defs example_marshal example_URL)

lemma example_second:
  "sendPOST example_env (Config.URL example_cfg) (transformMessage example_msg example_cfg)
     \<lparr> world = [post_request ''http://x/y'' example_body],
       logs = [''Message processed successfully.''] \<rparr> =
     (Some (errorString ''failed to process message. HTTP Status: 500 Internal Server Error''),
      \<lparr> world = [post_request ''http://x/y'' example_body, post_request ''http://x/y'' example_body],
        logs = [''Message processed successfully.''] \<rparr>)"
  by (simp add: example_defs example_marshal example_URL)

subsection \<open>One acknowledgement per message\<close>

text \<open>
  C1. Every message handed to the callback gets exactly one call on its handle, never two
  and never none, and the delivery decides which: \<open>Ack\<close> when \<open>sendPOST\<close> returns no
  error, \<open>Nack\<close> when it returns one. Stated for the message at any position of a run:
  \<open>s1\<close> is the state in which its delivery is attempted.
\<close>

theorem consumeMessages_ack_xor_nack:
  assumes "delivered sub = pre @ msg # post"
    and "Receive (callback env cfg) pre s = (calls1, s1)"
  shows "\<exists>calls2.
     fst (snd (consumeMessages env sub cfg s)) =
       calls1 @
       (if fst (sendPOST env (Config.URL cfg) (transformMessage msg cfg) s1) = None
        then [Ack] else [Nack]) # calls2 \<and>
     length calls1 = length pre \<and> length calls2 = length post"
proof -
  obtain c s2 where 1: "callback env cfg msg s1 = (c, s2)"
    by (cases "callback env cfg msg s1")
  obtain calls2 s3 where 2: "Receive (callback env cfg) post s2 = (calls2, s3)"
    by (cases "Receive (callback env cfg) post s2")
  from 1 callback_calls [of env cfg msg s1]
  have c: "c = (if fst (sendPOST env (Config.URL cfg) (transformMessage msg cfg) s1) = None
        then [Ack] else [Nack])" by simp
  from assms(2) Receive_length [of "callback env cfg" pre s]
  have l1: "length calls1 = length pre" by simp
  from 2 Receive_length [of "callback env cfg" post s2]
  have l2: "length calls2 = length post" by simp
  have "Receive (callback env cfg) (pre @ msg # post) s = (calls1 @ c # calls2, s3)"
    by (simp add: Receive_append assms(2) 1 2)
  then have "fst (snd (consumeMessages env sub cfg s)) = calls1 @ c # calls2"
    by (simp add: consumeMessages_def assms(1) split: option.splits)
  with c l1 l2 show ?thesis by blast
qed

theorem consumeMessages_ack_xor_nack_witness:
  "delivered example_run = [example_msg] @ example_msg # [example_msg] \<and>
   (\<exists>calls2. fst (snd (consumeMessages example_env example_run example_cfg example_state)) =
      [[Ack]] @ [Nack] # calls2 \<and> length calls2 = 1)"
proof -
  have d: "delivered example_run = [example_msg] @ example_msg # [example_msg]"
    by (simp add: example_run_def)
  from consumeMessages_ack_xor_nack [OF d example_first] d show ?thesis
    by (simp add: example_second)
qed

subsection \<open>Delivery\<close>

text \<open>
  C3. \<open>sendPOST\<close> returns no error exactly when a response arrived whose status code is
  at least 200 and below 300. A response with any other status gives an error that carries
  the response's status line; a transport failure and a URL that cannot be made into a
  request give an error that wraps the underlying one. Serialization of the envelope never
  fails, so no error arises from it.
\<close>

theorem sendPOST_success_iff_2xx:
  "\<exists>body. json_Marshal payload = Inr body \<and>
     (fst (sendPOST env url payload s) = None \<longleftrightarrow>
        url_Parse env url = None \<and>
        (\<exists>resp. fst (client_Do env (post_request url body) (world s)) = Inr resp \<and>
           200 \<le> StatusCode resp \<and> StatusCode resp < 300)) \<and>
     (\<forall>resp. url_Parse env url = None \<and>
        fst (client_Do env (post_request url body) (world s)) = Inr resp \<and>
        \<not> (200 \<le> StatusCode resp \<and> StatusCode resp < 300) \<longrightarrow>
        fst (sendPOST env url payload s) =
          Some (errorString (''failed to process message. HTTP Status: '' @ Status resp))) \<and>
     (\<forall>err. url_Parse env url = None \<and>
        fst (client_Do env (post_request url body) (world s)) = Inl err \<longrightarrow>
        fst (sendPOST env url payload s) = Some (wrapError (''POST request failed: '' @ Error err) err)) \<and>
     (\<forall>err. url_Parse env url = Some err \<longrightarrow>
        fst (sendPOST env url payload s) =
          Some (wrapError (''failed to create POST request: '' @ Error err) err))"
proof -
  obtain body where b: "json_Marshal payload = Inr body"
    by (simp add: json_Marshal_def)
  obtain r w where d: "client_Do env (post_request url body) (world s) = (r, w)"
    by (cases "client_Do env (post_request url body) (world s)")
  have "fst (sendPOST env url payload s) =
     (case url_Parse env url of
        Some err \<Rightarrow> Some (wrapError (''failed to create POST request: '' @ Error err) err)
      | None \<Rightarrow>
         (case r of
            Inl err \<Rightarrow> Some (wrapError (''POST request failed: '' @ Error err) err)
          | Inr resp \<Rightarrow>
              if 200 \<le> StatusCode resp \<and> StatusCode resp < 300 then None
              else Some (errorString (''failed to process message. HTTP Status: '' @ Status resp))))"
    using d
    by (simp add: sendPOST_def b http_NewRequest_def Header_Set_def post_request_def
        Errorf_w_def Errorf_s_def split: option.splits sum.splits)
  with b d show ?thesis
    by (auto split: option.splits sum.splits if_splits)
qed

theorem sendPOST_success_iff_2xx_witness:
  "fst (sendPOST example_env ''http://x/y'' (transformMessage example_msg example_cfg) example_state) = None \<and>
   fst (sendPOST example_env ''http://x/y'' (transformMessage example_msg example_cfg)
      (example_state \<lparr> world := [post_request ''http://x/y'' example_body] \<rparr>)) =
     Some (errorString ''failed to process message. HTTP Status: 500 Internal Server Error'') \<and>
   fst (sendPOST
      (example_env \<lparr> client_Do := (\<lambda>req w. (Inl (external_error ''connection refused''), w)) \<rparr>)
      ''http://x/y'' (transformMessage example_msg example_cfg) example_state) =
     Some (wrapError ''POST request failed: connection refused'' (external_error ''connection refused''))"
  using sendPOST_success_iff_2xx [of "transformMessage example_msg example_cfg" example_env
      "''http://x/y''" example_state]
    sendPOST_success_iff_2xx [of "transformMessage example_msg example_cfg" example_env
      "''http://x/y''" "example_state \<lparr> world := [post_request ''http://x/y'' example_body] \<rparr>"]
    sendPOST_success_iff_2xx [of "transformMessage example_msg example_cfg"
      "example_env \<lparr> client_Do := (\<lambda>req w. (Inl (external_error ''connection refused''), w)) \<rparr>"
      "''http://x/y''" example_state]
  by (simp add: example_marshal example_env_def example_respond_def example_state_def)

subsection \<open>Termination of the loop\<close>

text \<open>
  C4. When \<open>Receive\<close> ends with the cancellation signal, \<open>consumeMessages\<close> returns no
  error; if no message had arrived, nothing was acknowledged or rejected and the state is
  untouched. When \<open>Receive\<close> ends with any other error, \<open>consumeMessages\<close> returns an error
  that wraps it.
\<close>

theorem consumeMessages_termination:
  "(result sub = None \<longrightarrow> fst (consumeMessages env sub cfg s) = None) \<and>
   (result sub = Some context_Canceled \<longrightarrow> fst (consumeMessages env sub cfg s) = None) \<and>
   (result sub = Some context_Canceled \<and> delivered sub = [] \<longrightarrow>
      consumeMessages env sub cfg s = (None, [], s)) \<and>
   (\<forall>err. result sub = Some err \<and> err \<noteq> context_Canceled \<longrightarrow>
      fst (consumeMessages env sub cfg s) =
        Some (wrapError (''error receiving messages: '' @ Error err) err))"
  by (auto simp: consumeMessages_def Errorf_w_def split: prod.splits)

theorem consumeMessages_termination_witness:
  "consumeMessages example_env \<lparr> delivered = [], result = Some context_Canceled \<rparr>
      example_cfg example_state = (None, [], example_state) \<and>
   fst (consumeMessages example_env \<lparr> delivered = [], result = Some (external_error ''stream closed'') \<rparr>
      example_cfg example_state) =
     Some (wrapError ''error receiving messages: stream closed'' (external_error ''stream closed''))"
  using consumeMessages_termination [of "\<lparr> delivered = [], result = Some context_Canceled \<rparr>"
      example_env example_cfg example_state]
    consumeMessages_termination [of "\<lparr> delivered = [], result = Some (external_error ''stream closed'') \<rparr>"
      example_env example_cfg example_state]
  by simp

subsection \<open>Failed deliveries\<close>

text \<open>
  C5. A delivery that fails is dealt with on the spot: the message gets \<open>Nack\<close>, a line with
  its identifier and the cause is in the log, the messages after it are processed from the
  state so reached, and the result of the loop is the one it would have had with no message
  at all.
\<close>

theorem delivery_failure_recovered:
  assumes "delivered sub = pre @ msg # post"
    and "Receive (callback env cfg) pre s = (calls1, s1)"
    and "sendPOST env (Config.URL cfg) (transformMessage msg cfg) s1 = (Some err, s2)"
  shows "\<exists>calls2 s3.
     Receive (callback env cfg) post
       (log_Println (''Error processing message ID '' @ ID msg @ '': '' @ Error err) s2) = (calls2, s3) \<and>
     snd (consumeMessages env sub cfg s) = (calls1 @ [Nack] # calls2, s3) \<and>
     length calls2 = length post \<and>
     (''Error processing message ID '' @ ID msg @ '': '' @ Error err) \<in> set (logs s3) \<and>
     fst (consumeMessages env sub cfg s) = fst (consumeMessages env (sub \<lparr> delivered := [] \<rparr>) cfg s)"
proof -
  define line where "line = ''Error processing message ID '' @ ID msg @ '': '' @ Error err"
  have 1: "callback env cfg msg s1 = ([Nack], log_Println line s2)"
    by (simp add: callback_def assms(3) line_def)
  obtain calls2 s3 where 2: "Receive (callback env cfg) post (log_Println line s2) = (calls2, s3)"
    by (cases "Receive (callback env cfg) post (log_Println line s2)")
  from 2 Receive_length [of "callback env cfg" post "log_Println line s2"]
  have l2: "length calls2 = length post" by simp
  have "line \<in> set (logs (log_Println line s2))"
    by (simp add: log_Println_def)
  with Receive_logs [of "log_Println line s2" env cfg post] 2
  have lg: "line \<in> set (logs s3)" by auto
  have r: "Receive (callback env cfg) (pre @ msg # post) s = (calls1 @ [Nack] # calls2, s3)"
    by (simp add: Receive_append assms(2) 1 2)
  then have a: "snd (consumeMessages env sub cfg s) = (calls1 @ [Nack] # calls2, s3)"
    by (simp add: consumeMessages_def assms(1) split: option.splits)
  have b: "fst (consumeMessages env sub cfg s) = fst (consumeMessages env (sub \<lparr> delivered := [] \<rparr>) cfg s)"
    by (simp add: consumeMessages_def assms(1) r split: option.splits)
  from 2 a l2 lg b show ?thesis unfolding line_def by blast
qed

theorem delivery_failure_recovered_witness:
  "delivered example_run = [example_msg] @ example_msg # [example_msg] \<and>
   (\<exists>calls2 s3.
      snd (consumeMessages example_env example_run example_cfg example_state) =
        ([[Ack]] @ [Nack] # calls2, s3) \<and>
      length calls2 = 1 \<and>
      ''Error processing message ID m1: failed to process message. HTTP Status: 500 Internal Server Error''
        \<in> set (logs s3)) \<and>
   fst (consumeMessages example_env example_run example_cfg example_state) = None"
proof -
  have d: "delivered example_run = [example_msg] @ example_msg # [example_msg]"
    by (simp add: example_run_def)
  have n: "fst (consumeMessages example_env (example_run \<lparr> delivered := [] \<rparr>) example_cfg example_state) = None"
    by (simp add: consumeMessages_def example_run_def)
  from delivery_failure_recovered [OF d example_first example_second] d n show ?thesis
    by (auto simp: example_ID)
qed

subsection \<open>The envelope\<close>

lemma fold_entries_lookup:
  "fmlookup (fold (\<lambda>k obj. case fmlookup m k of None \<Rightarrow> obj | Some v \<Rightarrow> fmupd k (JString v) obj) ks acc) x =
     (if x \<in> set ks \<and> fmlookup m x \<noteq> None then map_option JString (fmlookup m x) else fmlookup acc x)"
  by (induction ks arbitrary: acc) (auto split: option.splits)

lemma marshal_map_valid:
  assumes "\<forall>k v. fmlookup m k = Some v \<longrightarrow> ValidString k \<and> ValidString v"
  shows "marshal_map (Some m) = JObject (fmmap JString m)"
proof -
  let ?f = "\<lambda>k obj. case fmlookup m k of None \<Rightarrow> obj
                     | Some v \<Rightarrow> fmupd (coerceUTF8 k) (marshal_string v) obj"
  let ?g = "\<lambda>k obj. case fmlookup m k of None \<Rightarrow> obj | Some v \<Rightarrow> fmupd k (JString v) obj"
  let ?ks = "sorted_list_of_fset (fmdom m)"
  have "?f k = ?g k" for k
  proof (cases "fmlookup m k")
    case None
    then show ?thesis by simp
  next
    case (Some v)
    with assms have "coerceUTF8 k = k" "coerceUTF8 v = v"
      by (simp_all add: coerceUTF8_valid)
    with Some show ?thesis by (simp add: marshal_string_def)
  qed
  then have "?f = ?g" by blast
  then have e: "fold ?f ?ks fmempty = fold ?g ?ks fmempty" by simp
  have "fold ?g ?ks fmempty = fmmap JString m"
  proof (rule fmap_ext)
    fix x
    show "fmlookup (fold ?g ?ks fmempty) x = fmlookup (fmmap JString m) x"
      by (cases "fmlookup m x") (simp_all add: fold_entries_lookup fmdomI)
  qed
  with e show ?thesis by (simp add: marshal_map_def)
qed

lemma member_body:
  "json_Marshal payload = Inr body \<Longrightarrow>
   member body ''message'' = Some (marshal_Message (Message payload)) \<and>
   member body ''subscription'' = Some (marshal_string (PubSubMessage.Subscription payload))"
  by (auto simp: json_Marshal_def member_def)

lemma member_Message:
  "member (marshal_Message m) ''attributes'' = Some (marshal_map (PubSubMessage_Message.Attributes m))"
  "member (marshal_Message m) ''data'' = Some (marshal_string (PubSubMessage_Message.Data m))"
  "member (marshal_Message m) ''messageId'' = Some (marshal_string (MessageID m))"
  "member (marshal_Message m) ''orderingKey'' =
     (if PubSubMessage_Message.OrderingKey m = [] then None
      else Some (marshal_string (PubSubMessage_Message.OrderingKey m)))"
  "member (marshal_Message m) ''publishTime'' = Some (marshal_string (PubSubMessage_Message.PublishTime m))"
  by (simp_all add: marshal_Message_def member_def)

text \<open>
  C6, as amended. The envelope carries the attribute mapping of the raw message unchanged,
  and when its keys and values are valid UTF-8 the serialized body has exactly these
  entries. The body has an \<open>orderingKey\<close> member exactly when the raw message's ordering
  key is not empty, and when that key is valid UTF-8 the member is the key. The
  \<open>publishTime\<close> member is the publish timestamp in the layout \<^verbatim>\<open>time.RFC3339\<close>; when the
  local date of the timestamp is in the years 0000 to 9999 and its zone offset is less than
  24 hours either way, this is an RFC 3339 date-time that reads back as the timestamp's
  local second and its zone in whole minutes.
\<close>

theorem transformMessage_attributes_orderingKey_publishTime:
  "\<exists>body mobj.
     json_Marshal (transformMessage msg cfg) = Inr body \<and>
     member body ''message'' = Some mobj \<and>
     PubSubMessage_Message.Attributes (Message (transformMessage msg cfg)) = pubsub_Message.Attributes msg \<and>
     member mobj ''attributes'' = Some (marshal_map (pubsub_Message.Attributes msg)) \<and>
     (\<forall>m. pubsub_Message.Attributes msg = Some m \<and>
          (\<forall>k v. fmlookup m k = Some v \<longrightarrow> ValidString k \<and> ValidString v) \<longrightarrow>
        member mobj ''attributes'' = Some (JObject (fmmap JString m))) \<and>
     (member mobj ''orderingKey'' \<noteq> None \<longleftrightarrow> pubsub_Message.OrderingKey msg \<noteq> []) \<and>
     (pubsub_Message.OrderingKey msg \<noteq> [] \<and> ValidString (pubsub_Message.OrderingKey msg) \<longrightarrow>
        member mobj ''orderingKey'' = Some (JString (pubsub_Message.OrderingKey msg))) \<and>
     member mobj ''publishTime'' = Some (JString (Format_RFC3339 (pubsub_Message.PublishTime msg))) \<and>
     (- 62167219200 \<le> unixSec (pubsub_Message.PublishTime msg) + zoneOffset (pubsub_Message.PublishTime msg) \<and>
      unixSec (pubsub_Message.PublishTime msg) + zoneOffset (pubsub_Message.PublishTime msg) < 253402300800 \<and>
      - 86400 < zoneOffset (pubsub_Message.PublishTime msg) \<and>
      zoneOffset (pubsub_Message.PublishTime msg) < 86400 \<longrightarrow>
        Parse_RFC3339 (Format_RFC3339 (pubsub_Message.PublishTime msg)) =
          Some (unixSec (pubsub_Message.PublishTime msg) + zoneOffset (pubsub_Message.PublishTime msg),
                60 * quo (zoneOffset (pubsub_Message.PublishTime msg)) 60))"
proof -
  obtain body where b: "json_Marshal (transformMessage msg cfg) = Inr body"
    by (simp add: json_Marshal_def)
  let ?m = "Message (transformMessage msg cfg)"
  have f: "PubSubMessage_Message.Attributes ?m = pubsub_Message.Attributes msg"
    "PubSubMessage_Message.OrderingKey ?m = pubsub_Message.OrderingKey msg"
    "PubSubMessage_Message.PublishTime ?m = Format_RFC3339 (pubsub_Message.PublishTime msg)"
    by (simp_all add: transformMessage_def)
  from member_body [OF b] have mb: "member body ''message'' = Some (marshal_Message ?m)" ..
  have a: "member (marshal_Message ?m) ''attributes'' = Some (JObject (fmmap JString m))"
    if "pubsub_Message.Attributes msg = Some m"
      "\<forall>k v. fmlookup m k = Some v \<longrightarrow> ValidString k \<and> ValidString v" for m
    using that by (simp add: member_Message f marshal_map_valid)
  have k: "member (marshal_Message ?m) ''orderingKey'' = Some (JString (pubsub_Message.OrderingKey msg))"
    if "pubsub_Message.OrderingKey msg \<noteq> []" "ValidString (pubsub_Message.OrderingKey msg)"
    using that by (simp add: member_Message f marshal_string_def coerceUTF8_valid)
  have p: "member (marshal_Message ?m) ''publishTime'' =
      Some (JString (Format_RFC3339 (pubsub_Message.PublishTime msg)))"
    by (simp add: member_Message f marshal_string_def coerceUTF8_Format)
  have r: "Parse_RFC3339 (Format_RFC3339 t) = Some (unixSec t + zoneOffset t, 60 * quo (zoneOffset t) 60)"
    if "- 62167219200 \<le> unixSec t + zoneOffset t \<and> unixSec t + zoneOffset t < 253402300800 \<and>
      - 86400 < zoneOffset t \<and> zoneOffset t < 86400" for t
    using that by (intro Parse_Format) simp_all
  have o: "member (marshal_Message ?m) ''orderingKey'' \<noteq> None \<longleftrightarrow> pubsub_Message.OrderingKey msg \<noteq> []"
    by (simp add: member_Message f)
  have at: "member (marshal_Message ?m) ''attributes'' = Some (marshal_map (pubsub_Message.Attributes msg))"
    by (simp add: member_Message f)
  from b mb f(1) at a o k p r show ?thesis
    by blast
qed

theorem transformMessage_attributes_orderingKey_publishTime_witness:
  "\<exists>body mobj.
     json_Marshal (transformMessage (example_msg \<lparr> pubsub_Message.OrderingKey := ''key-1'' \<rparr>) example_cfg)
       = Inr body \<and>
     member body ''message'' = Some mobj \<and>
     member mobj ''attributes'' = Some (JObject (fmap_of_list [(''k'', JString ''v'')])) \<and>
     member mobj ''orderingKey'' = Some (JString ''key-1'') \<and>
     member mobj ''publishTime'' = Some (JString ''2024-01-01T00:00:00Z'') \<and>
     Parse_RFC3339 ''2024-01-01T00:00:00Z'' = Some (1704067200, 0)"
proof -
  let ?msg = "example_msg \<lparr> pubsub_Message.OrderingKey := ''key-1'' \<rparr>"
  have a: "pubsub_Message.Attributes ?msg = Some (fmap_of_list [(''k'', ''v'')])"
    "pubsub_Message.OrderingKey ?msg = ''key-1''"
    "pubsub_Message.PublishTime ?msg = \<lparr> unixSec = 1704067200, nsec = 0, zoneOffset = 0 \<rparr>"
    by (simp_all add: example_msg_def)
  have v: "\<forall>k v. fmlookup (fmap_of_list [(''k'', ''v'')]) k = Some v \<longrightarrow> ValidString k \<and> ValidString v"
    by (auto split: if_splits)
  have o: "ValidString ''key-1''" by simp
  from transformMessage_attributes_orderingKey_publishTime [of ?msg example_cfg]
  obtain body mobj where
    "json_Marshal (transformMessage ?msg example_cfg) = Inr body"
    "member body ''message'' = Some mobj"
    "member mobj ''attributes'' = Some (JObject (fmmap JString (fmap_of_list [(''k'', ''v'')])))"
    "member mobj ''orderingKey'' = Some (JString ''key-1'')"
    "member mobj ''publishTime'' = Some (JString ''2024-01-01T00:00:00Z'')"
    "Parse_RFC3339 ''2024-01-01T00:00:00Z'' = Some (1704067200, 0)"
    unfolding a using v o by (auto simp: Format_example quo_def)
  then show ?thesis
    by (auto simp: fmmap_fmupd)
qed

lemma Date_year_10000: "Date 2932897 = (10000, 1, 1)"
  by code_simp

lemma appendInt_10000: "appendInt 10000 4 = ''10000''"
  by (simp add: appendInt_def itoa.simps [of 10000] itoa4 digits_def)

lemma appendInt2_digits: "0 \<le> x \<Longrightarrow> x < 100 \<Longrightarrow> appendInt x 2 = [''0123456789'' ! (nat x div 10), ''0123456789'' ! (nat x mod 10)]"
  by (simp add: appendInt2 digits_def)

lemma Format_year_10000: "Format_RFC3339 \<lparr> unixSec = 253402300800, nsec = 0, zoneOffset = 0 \<rparr> = ''10000-01-01T00:00:00Z''"
  by (simp add: Format_RFC3339_def Date_year_10000 appendInt_10000 appendInt2_digits formatZone_def)

lemma Format_zone_24h: "Format_RFC3339 \<lparr> unixSec = 1704067200, nsec = 0, zoneOffset = 86400 \<rparr> =
      ''2024-01-02T00:00:00+24:00''"
  by code_simp

lemma Parse_year_10000: "Parse_RFC3339 ''10000-01-01T00:00:00Z'' = None"
  by simp

lemma Parse_zone_24h: "Parse_RFC3339 ''2024-01-02T00:00:00+24:00'' = None"
  by (simp add: digitVal_def)

text \<open>
  C6, as stated, fails on three raw messages. An ordering key that is not valid UTF-8 is
  not what the body has: the byte \<^verbatim>\<open>0xFF\<close> is written as the replacement character. A
  publish time in the year 10000 is written with a five-digit year, and a zone offset of 24
  hours as \<^verbatim>\<open>+24:00\<close>; neither is an RFC 3339 date-time.
\<close>

theorem orderingKey_publishTime_counterexample:
  "member (marshal_Message (Message (transformMessage
       (example_msg \<lparr> pubsub_Message.OrderingKey := [CHR 0xFF] \<rparr>) example_cfg))) ''orderingKey'' =
     Some (JString [CHR 0xEF, CHR 0xBF, CHR 0xBD]) \<and>
   member (marshal_Message (Message (transformMessage
       (example_msg \<lparr> pubsub_Message.OrderingKey := [CHR 0xFF] \<rparr>) example_cfg))) ''orderingKey'' \<noteq>
     Some (JString [CHR 0xFF]) \<and>
   PubSubMessage_Message.PublishTime (Message (transformMessage
       (example_msg \<lparr> pubsub_Message.PublishTime :=
          \<lparr> unixSec = 253402300800, nsec = 0, zoneOffset = 0 \<rparr> \<rparr>) example_cfg)) =
     ''10000-01-01T00:00:00Z'' \<and>
   Parse_RFC3339 ''10000-01-01T00:00:00Z'' = None \<and>
   PubSubMessage_Message.PublishTime (Message (transformMessage
       (example_msg \<lparr> pubsub_Message.PublishTime :=
          \<lparr> unixSec = 1704067200, nsec = 0, zoneOffset = 86400 \<rparr> \<rparr>) example_cfg)) =
     ''2024-01-02T00:00:00+24:00'' \<and>
   Parse_RFC3339 ''2024-01-02T00:00:00+24:00'' = None"
  by (simp add: member_Message transformMessage_def marshal_string_def RuneError_def
      Format_year_10000 Format_zone_24h Parse_year_10000 Parse_zone_24h
        del: Parse_RFC3339.simps)

lemma split_at_first:
  "c \<notin> set a \<Longrightarrow> c \<notin> set b \<Longrightarrow> a @ c # x = b @ c # y \<Longrightarrow> a = b \<and> x = y"
proof (induction a arbitrary: b)
  case Nil
  then show ?case by (cases b) auto
next
  case (Cons h t)
  then show ?case by (cases b) auto
qed

lemma slash_split:
  assumes "CHR ''/'' \<notin> set p1" "CHR ''/'' \<notin> set p2"
    and "p1 @ ''/subscriptions/'' @ s1 = p2 @ ''/subscriptions/'' @ s2"
  shows "p1 = p2 \<and> s1 = s2"
proof -
  from assms(3) have "p1 @ CHR ''/'' # (''subscriptions/'' @ s1) = p2 @ CHR ''/'' # (''subscriptions/'' @ s2)"
    by simp
  from split_at_first [OF assms(1,2) this] show ?thesis by simp
qed

text \<open>
  C7, as amended. The envelope's \<open>subscription\<close> is
  \<^verbatim>\<open>projects/{project}/subscriptions/{subscription}\<close> for every configuration. Two
  configurations whose project identifiers contain no \<^verbatim>\<open>/\<close> and that differ in project or
  subscription give different \<open>subscription\<close> fields.
\<close>

theorem subscription_pattern_injective:
  "PubSubMessage.Subscription (transformMessage msg cfg) =
     ''projects/'' @ Project cfg @ ''/subscriptions/'' @ Config.Subscription cfg \<and>
   (CHR ''/'' \<notin> set (Project c1) \<and> CHR ''/'' \<notin> set (Project c2) \<and>
    (Project c1, Config.Subscription c1) \<noteq> (Project c2, Config.Subscription c2) \<longrightarrow>
      PubSubMessage.Subscription (transformMessage m1 c1) \<noteq>
      PubSubMessage.Subscription (transformMessage m2 c2))"
proof -
  have "PubSubMessage.Subscription (transformMessage m1 c1) \<noteq>
      PubSubMessage.Subscription (transformMessage m2 c2)"
    if "CHR ''/'' \<notin> set (Project c1)" "CHR ''/'' \<notin> set (Project c2)"
      "(Project c1, Config.Subscription c1) \<noteq> (Project c2, Config.Subscription c2)"
  proof
    assume "PubSubMessage.Subscription (transformMessage m1 c1) =
      PubSubMessage.Subscription (transformMessage m2 c2)"
    then have "Project c1 @ ''/subscriptions/'' @ Config.Subscription c1 =
      Project c2 @ ''/subscriptions/'' @ Config.Subscription c2"
      by (simp add: transformMessage_def)
    from slash_split [OF that(1,2) this] that(3) show False by simp
  qed
  then show ?thesis
    by (simp add: transformMessage_def)
qed

theorem subscription_pattern_injective_witness:
  "PubSubMessage.Subscription (transformMessage example_msg example_cfg) = ''projects/p/subscriptions/s'' \<and>
   PubSubMessage.Subscription (transformMessage example_msg example_cfg) \<noteq>
   PubSubMessage.Subscription (transformMessage example_msg (example_cfg \<lparr> Config.Subscription := ''t'' \<rparr>))"
  using subscription_pattern_injective [of example_msg example_cfg example_cfg
      "example_cfg \<lparr> Config.Subscription := ''t'' \<rparr>" example_msg example_msg]
  by (simp add: example_cfg_def transformMessage_def)

text \<open>
  C7, as stated, fails: nothing keeps a \<^verbatim>\<open>/\<close> out of the identifiers, and the project
  \<^verbatim>\<open>a/subscriptions/b\<close> with subscription \<^verbatim>\<open>c\<close> gives the same field as the project \<^verbatim>\<open>a\<close>
  with subscription \<^verbatim>\<open>b/subscriptions/c\<close>.
\<close>

theorem subscription_not_injective:
  "(Project \<lparr> Project = ''a/subscriptions/b'', Config.Subscription = ''c'', Config.URL = ''http://x/y'' \<rparr>,
    Config.Subscription \<lparr> Project = ''a/subscriptions/b'', Config.Subscription = ''c'', Config.URL = ''http://x/y'' \<rparr>)
   \<noteq>
   (Project \<lparr> Project = ''a'', Config.Subscription = ''b/subscriptions/c'', Config.URL = ''http://x/y'' \<rparr>,
    Config.Subscription \<lparr> Project = ''a'', Config.Subscription = ''b/subscriptions/c'', Config.URL = ''http://x/y'' \<rparr>)
   \<and>
   PubSubMessage.Subscription (transformMessage example_msg
     \<lparr> Project = ''a/subscriptions/b'', Config.Subscription = ''c'', Config.URL = ''http://x/y'' \<rparr>) =
   PubSubMessage.Subscription (transformMessage example_msg
     \<lparr> Project = ''a'', Config.Subscription = ''b/subscriptions/c'', Config.URL = ''http://x/y'' \<rparr>)"
  by (simp add: transformMessage_def)

text \<open>
  C8. The end-to-end example of the specification: for the message \<^verbatim>\<open>m1\<close> with payload
  \<^verbatim>\<open>hello\<close>, attribute \<^verbatim>\<open>k\<close> = \<^verbatim>\<open>v\<close>, published at 2024-01-01T00:00:00Z, and the
  configuration \<^verbatim>\<open>p\<close>, \<^verbatim>\<open>s\<close>, \<^verbatim>\<open>http://x/y\<close>, the endpoint receives one POST whose body is
  the document below; it has no \<open>orderingKey\<close> member.
\<close>

theorem end_to_end_example:
  "sendPOST example_env (Config.URL example_cfg) (transformMessage example_msg example_cfg) example_state =
     (None,
      \<lparr> world =
          [\<lparr> Method = ''POST'', URL = ''http://x/y'',
             Header = [(''Content-Type'', ''application/json'')],
             Body =
               JObject (fmap_of_list
                 [(''message'', JObject (fmap_of_list
                     [(''attributes'', JObject (fmap_of_list [(''k'', JString ''v'')])),
                      (''data'', JString ''aGVsbG8=''),
                      (''messageId'', JString ''m1''),
                      (''publishTime'', JString ''2024-01-01T00:00:00Z'')])),
                  (''subscription'', JString ''projects/p/subscriptions/s'')]) \<rparr>],
        logs = [''Message processed successfully.''] \<rparr>) \<and>
   member (marshal_Message (Message (transformMessage example_msg example_cfg))) ''orderingKey'' = None"
  by (simp add: example_defs example_marshal example_URL example_body_def member_Message)
     (simp add: transformMessage_def example_msg_def)

text \<open>
  C9. The \<open>publishTime\<close> of the envelope has whole-second precision: the nanoseconds of
  the publish timestamp do not enter it, so two raw messages whose timestamps agree in the
  second and the zone give the same string.
\<close>

theorem publishTime_whole_seconds:
  "(unixSec (pubsub_Message.PublishTime m1) = unixSec (pubsub_Message.PublishTime m2) \<and>
    zoneOffset (pubsub_Message.PublishTime m1) = zoneOffset (pubsub_Message.PublishTime m2) \<longrightarrow>
      PubSubMessage_Message.PublishTime (Message (transformMessage m1 c1)) =
      PubSubMessage_Message.PublishTime (Message (transformMessage m2 c2))) \<and>
   Format_RFC3339 (t \<lparr> nsec := n \<rparr>) = Format_RFC3339 t"
  by (simp add: transformMessage_def Format_RFC3339_def)

theorem publishTime_whole_seconds_witness:
  "PubSubMessage_Message.PublishTime (Message (transformMessage
       (example_msg \<lparr> pubsub_Message.PublishTime := \<lparr> unixSec = 1704067200, nsec = 999999999, zoneOffset = 0 \<rparr> \<rparr>)
       example_cfg)) =
   PubSubMessage_Message.PublishTime (Message (transformMessage example_msg example_cfg)) \<and>
   PubSubMessage_Message.PublishTime (Message (transformMessage example_msg example_cfg)) =
     ''2024-01-01T00:00:00Z''"
  using publishTime_whole_seconds [of
      "example_msg \<lparr> pubsub_Message.PublishTime := \<lparr> unixSec = 1704067200, nsec = 999999999, zoneOffset = 0 \<rparr> \<rparr>"
      example_msg example_cfg example_cfg]
  by (simp add: example_msg_def transformMessage_def Format_example)

text \<open>
  C10. The serialized message object always has an \<open>attributes\<close> member. For a raw message
  whose attribute mapping is \<^verbatim>\<open>nil\<close> the member is \<^verbatim>\<open>null\<close>, not the empty object; for a
  mapping that exists it is an object, and the object of its entries when these are valid
  UTF-8.
\<close>

theorem attributes_always_present:
  "\<exists>body mobj.
     json_Marshal (transformMessage msg cfg) = Inr body \<and>
     member body ''message'' = Some mobj \<and>
     member mobj ''attributes'' \<noteq> None \<and>
     (pubsub_Message.Attributes msg = None \<longrightarrow>
        member mobj ''attributes'' = Some JNull \<and>
        member mobj ''attributes'' \<noteq> Some (JObject fmempty)) \<and>
     (\<forall>m. pubsub_Message.Attributes msg = Some m \<longrightarrow>
        (\<exists>obj. member mobj ''attributes'' = Some (JObject obj)) \<and>
        ((\<forall>k v. fmlookup m k = Some v \<longrightarrow> ValidString k \<and> ValidString v) \<longrightarrow>
           member mobj ''attributes'' = Some (JObject (fmmap JString m))))"
proof -
  obtain body where b: "json_Marshal (transformMessage msg cfg) = Inr body"
    by (simp add: json_Marshal_def)
  let ?m = "Message (transformMessage msg cfg)"
  have f: "PubSubMessage_Message.Attributes ?m = pubsub_Message.Attributes msg"
    by (simp add: transformMessage_def)
  from member_body [OF b] have mb: "member body ''message'' = Some (marshal_Message ?m)" ..
  have n: "member (marshal_Message ?m) ''attributes'' = Some JNull"
    if "pubsub_Message.Attributes msg = None"
    using that by (simp add: member_Message f marshal_map_def)
  have s: "\<exists>obj. member (marshal_Message ?m) ''attributes'' = Some (JObject obj)"
    if "pubsub_Message.Attributes msg = Some m" for m
    using that by (simp add: member_Message f marshal_map_def)
  have v: "member (marshal_Message ?m) ''attributes'' = Some (JObject (fmmap JString m))"
    if "pubsub_Message.Attributes msg = Some m"
      "\<forall>k v. fmlookup m k = Some v \<longrightarrow> ValidString k \<and> ValidString v" for m
    using that by (simp add: member_Message f marshal_map_valid)
  have p: "member (marshal_Message ?m) ''attributes'' \<noteq> None"
    by (simp add: member_Message)
  from b mb n s v p show ?thesis
    by (intro exI [of _ body] exI [of _ "marshal_Message ?m"]) auto
qed

theorem attributes_always_present_witness:
  "\<exists>body mobj.
     json_Marshal (transformMessage (example_msg \<lparr> pubsub_Message.Attributes := None \<rparr>) example_cfg)
       = Inr body \<and>
     member body ''message'' = Some mobj \<and>
     member mobj ''attributes'' = Some JNull"
  using attributes_always_present [of "example_msg \<lparr> pubsub_Message.Attributes := None \<rparr>" example_cfg]
  by auto

end
